theory Spec2Isabelle
  imports Main "HOL-Library.Multiset" "HOL-Library.While_Combinator"
begin

section \<open>Grids\<close>

text \<open>
  The three modules of the repository (\<^verbatim>\<open>sudoku-core.js\<close>, the object-literal module
  \<open>SudokuCore\<close>; \<^verbatim>\<open>sudoku-solver.js\<close>, the class \<open>SudokuSolver\<close>; and the standalone
  generator script with \<^verbatim>\<open>export function\<close> declarations) all work on a grid that is
  an array of 9 row arrays of 9 numbers, 0 for an empty cell. A grid is modelled as a list
  of rows. Every index expression of the source ranges over \<open>0..8\<close> when \<open>row\<close> and
  \<open>col\<close> do, so on a 9x9 grid (\<open>grid9\<close>) every read and write below is in range; the
  theorems are stated for such grids only.
\<close>

type_synonym grid = "nat list list"

definition cell :: "grid \<Rightarrow> nat \<Rightarrow> nat \<Rightarrow> nat" where
  "cell g row col = g ! row ! col"

text \<open>The assignment \<^verbatim>\<open>grid[row][col] = v\<close>.\<close>

definition put :: "grid \<Rightarrow> nat \<Rightarrow> nat \<Rightarrow> nat \<Rightarrow> grid" where
  "put g row col v = g[row := (g ! row)[col := v]]"

definition grid9 :: "grid \<Rightarrow> bool" where
  "grid9 g \<longleftrightarrow> length g = 9 \<and> list_all (\<lambda>r. length r = 9) g"

section \<open>Placement validity\<close>

text \<open>
  \<^verbatim>\<open>isValidPlacement\<close> of \<^verbatim>\<open>sudoku-core.js\<close>: three scans, each returning false at the first
  cell that holds \<open>num\<close>.
\<close>

definition core_isValidPlacement :: "grid \<Rightarrow> nat \<Rightarrow> nat \<Rightarrow> nat \<Rightarrow> bool" where
  "core_isValidPlacement g row col num =
     (if list_ex (\<lambda>x. cell g row x = num) [0..<9] then False
      else if list_ex (\<lambda>x. cell g x col = num) [0..<9] then False
      else
        let startRow = (row div 3) * 3; startCol = (col div 3) * 3 in
        if list_ex (\<lambda>i. list_ex (\<lambda>j. cell g (startRow + i) (startCol + j) = num) [0..<3]) [0..<3]
        then False else True)"

text \<open>\<^verbatim>\<open>SudokuSolver.isValidPlacement\<close> of \<^verbatim>\<open>sudoku-solver.js\<close>: the same three scans.\<close>

definition SudokuSolver_isValidPlacement :: "grid \<Rightarrow> nat \<Rightarrow> nat \<Rightarrow> nat \<Rightarrow> bool" where
  "SudokuSolver_isValidPlacement g row col num =
     (if list_ex (\<lambda>x. cell g row x = num) [0..<9] then False
      else if list_ex (\<lambda>x. cell g x col = num) [0..<9] then False
      else
        let startRow = (row div 3) * 3; startCol = (col div 3) * 3 in
        if list_ex (\<lambda>i. list_ex (\<lambda>j. cell g (i + startRow) (j + startCol) = num) [0..<3]) [0..<3]
        then False else True)"

text \<open>
  \<^verbatim>\<open>isValidPlacement\<close> of the standalone generator: one loop over \<open>i = 0..8\<close> that looks at
  the \<open>i\<close>-th cell of the row, of the column and of the box.
\<close>

definition gen_isValidPlacement :: "grid \<Rightarrow> nat \<Rightarrow> nat \<Rightarrow> nat \<Rightarrow> bool" where
  "gen_isValidPlacement g row col num =
     (let boxStartRow = (row div 3) * 3; boxStartCol = (col div 3) * 3 in
      if list_ex (\<lambda>i. cell g row i = num \<or> cell g i col = num \<or>
                       cell g (boxStartRow + i div 3) (boxStartCol + i mod 3) = num) [0..<9]
      then False else True)"

section \<open>Rows, columns and boxes\<close>

definition in_row :: "grid \<Rightarrow> nat \<Rightarrow> nat \<Rightarrow> bool" where
  "in_row g row d \<longleftrightarrow> (\<exists>x<9. cell g row x = d)"

definition in_col :: "grid \<Rightarrow> nat \<Rightarrow> nat \<Rightarrow> bool" where
  "in_col g col d \<longleftrightarrow> (\<exists>x<9. cell g x col = d)"

text \<open>The box of \<open>(row, col)\<close> is the set of cells with the same \<open>row div 3\<close> and \<open>col div 3\<close>.\<close>

definition in_box :: "grid \<Rightarrow> nat \<Rightarrow> nat \<Rightarrow> nat \<Rightarrow> bool" where
  "in_box g row col d \<longleftrightarrow>
     (\<exists>r<9. \<exists>c<9. r div 3 = row div 3 \<and> c div 3 = col div 3 \<and> cell g r c = d)"

section \<open>The random source\<close>

text \<open>
  \<^verbatim>\<open>Math.floor(Math.random() * n)\<close> is an index below \<open>n\<close> chosen by the environment.
  The random source is modelled as the infinite sequence of numbers that the environment
  will hand out; a draw takes the head of the sequence, reduced below \<open>n\<close>. Every outcome
  of the source's calls is the behaviour of some sequence.
\<close>

type_synonym rng = "nat \<Rightarrow> nat"

definition randomBelow :: "nat \<Rightarrow> rng \<Rightarrow> nat \<times> rng" where
  "randomBelow n s = (s 0 mod n, \<lambda>k. s (Suc k))"

text \<open>
  The Fisher-Yates loop \<^verbatim>\<open>for (let i = a.length - 1; i > 0; i--)\<close> with
  \<^verbatim>\<open>j = Math.floor(Math.random() * (i + 1))\<close> and the swap of \<open>a[i]\<close> and \<open>a[j]\<close>. It occurs
  verbatim in all three modules (as \<^verbatim>\<open>shuffleArray\<close> in \<^verbatim>\<open>sudoku-core.js\<close>, inline elsewhere).
\<close>

fun fisherYates :: "nat \<Rightarrow> 'a list \<Rightarrow> rng \<Rightarrow> 'a list \<times> rng" where
  "fisherYates 0 xs s = (xs, s)"
| "fisherYates (Suc i) xs s =
     (let (j, s') = randomBelow (Suc i + 1) s
      in fisherYates i (xs[Suc i := xs ! j, j := xs ! Suc i]) s')"

definition shuffleArray :: "'a list \<Rightarrow> rng \<Rightarrow> 'a list \<times> rng" where
  "shuffleArray xs s = fisherYates (length xs - 1) xs s"

section \<open>Scanning the grid\<close>

text \<open>The order of the nested loops \<^verbatim>\<open>for row = 0..8, for col = 0..8\<close>.\<close>

definition scanOrder :: "(nat \<times> nat) list" where
  "scanOrder = [(row, col). row \<leftarrow> [0..<9], col \<leftarrow> [0..<9]]"

definition emptyGrid :: grid where
  "emptyGrid = replicate 9 (replicate 9 0)"

section \<open>The object-literal module: solvers\<close>

text \<open>
  The recursive searches are modelled with a bound \<open>depth\<close> on the depth of the recursion;
  \<open>None\<close> means that the bound was reached. Each level of the recursion fills one empty
  cell, so a grid with 81 cells needs at most 82 levels. The searches write into the grid
  they are given, so they return the grid together with their result.

  The candidate loop of \<^verbatim>\<open>solveGrid\<close> and of \<^verbatim>\<open>solveGridWithMRV\<close>:
  \<^verbatim>\<open>for (num = 1..9) if (isValidPlacement(..)) { grid[row][col] = num;
      if (recurse(grid)) return true; grid[row][col] = 0; }  return false;\<close>
\<close>

fun core_tryNums ::
  "(grid \<Rightarrow> (bool \<times> grid) option) \<Rightarrow> grid \<Rightarrow> nat \<Rightarrow> nat \<Rightarrow> nat list \<Rightarrow> (bool \<times> grid) option" where
  "core_tryNums recurse g row col [] = Some (False, g)"
| "core_tryNums recurse g row col (num # nums) =
     (if core_isValidPlacement g row col num then
        (case recurse (put g row col num) of
           None \<Rightarrow> None
         | Some (True, g') \<Rightarrow> Some (True, g')
         | Some (False, g') \<Rightarrow> core_tryNums recurse (put g' row col 0) row col nums)
      else core_tryNums recurse g row col nums)"

text \<open>\<^verbatim>\<open>solveGrid\<close>: branches on the first empty cell in scan order.\<close>

primrec core_solveGrid :: "nat \<Rightarrow> grid \<Rightarrow> (bool \<times> grid) option" where
  "core_solveGrid 0 g = None"
| "core_solveGrid (Suc depth) g =
     (case find (\<lambda>(row, col). cell g row col = 0) scanOrder of
        None \<Rightarrow> Some (True, g)
      | Some (row, col) \<Rightarrow> core_tryNums (core_solveGrid depth) g row col [1..<10])"

definition core_possibleNums :: "grid \<Rightarrow> nat \<Rightarrow> nat \<Rightarrow> nat" where
  "core_possibleNums g row col = length (filter (core_isValidPlacement g row col) [1..<10])"

definition core_emptyCells :: "grid \<Rightarrow> (nat \<times> nat \<times> nat) list" where
  "core_emptyCells g =
     [(row, col, core_possibleNums g row col). (row, col) \<leftarrow> scanOrder, cell g row col = 0]"

text \<open>
  \<^verbatim>\<open>solveGridWithMRV\<close>: the empty cells are sorted by their number of candidates and the
  first one is taken. \<^verbatim>\<open>Array.prototype.sort\<close> is stable, as is \<open>sort_key\<close>.
\<close>

primrec core_solveGridWithMRV :: "nat \<Rightarrow> grid \<Rightarrow> (bool \<times> grid) option" where
  "core_solveGridWithMRV 0 g = None"
| "core_solveGridWithMRV (Suc depth) g =
     (let emptyCells = core_emptyCells g in
      if emptyCells = [] then Some (True, g)
      else
        let (row, col, possibleNums) = hd (sort_key (\<lambda>(row, col, possibleNums). possibleNums) emptyCells)
        in core_tryNums (core_solveGridWithMRV depth) g row col [1..<10])"

section \<open>The object-literal module: counting solutions\<close>

text \<open>
  The cell selection of \<^verbatim>\<open>countSolutionsFast\<close>. The state of the scan is the selected cell
  (\<open>None\<close> for \<^verbatim>\<open>row = col = -1\<close>) and \<^verbatim>\<open>minPossibilities\<close>. A cell with exactly one candidate
  is selected and ends the scan of its row (\<^verbatim>\<open>break\<close>) without updating
  \<^verbatim>\<open>minPossibilities\<close>; the scan of the rows ends when \<^verbatim>\<open>row !== -1 && minPossibilities === 1\<close>.
\<close>

fun core_scanCols ::
  "grid \<Rightarrow> nat \<Rightarrow> nat list \<Rightarrow> (nat \<times> nat) option \<times> nat \<Rightarrow> (nat \<times> nat) option \<times> nat" where
  "core_scanCols g i [] (sel, minPossibilities) = (sel, minPossibilities)"
| "core_scanCols g i (j # js) (sel, minPossibilities) =
     (if cell g i j = 0 then
        let possibilities = core_possibleNums g i j in
        if possibilities = 1 then (Some (i, j), minPossibilities)
        else if possibilities < minPossibilities
          then core_scanCols g i js (Some (i, j), possibilities)
          else core_scanCols g i js (sel, minPossibilities)
      else core_scanCols g i js (sel, minPossibilities))"

fun core_scanRows ::
  "grid \<Rightarrow> nat list \<Rightarrow> (nat \<times> nat) option \<times> nat \<Rightarrow> (nat \<times> nat) option \<times> nat" where
  "core_scanRows g [] st = st"
| "core_scanRows g (i # rows) st =
     (let (sel, minPossibilities) = core_scanCols g i [0..<9] st in
      if sel \<noteq> None \<and> minPossibilities = 1 then (sel, minPossibilities)
      else core_scanRows g rows (sel, minPossibilities))"

definition core_selectCell :: "grid \<Rightarrow> (nat \<times> nat) option" where
  "core_selectCell g = fst (core_scanRows g [0..<9] (None, 10))"

text \<open>
  The candidate loop of \<^verbatim>\<open>countSolutionsFast\<close>; \<open>count\<close> is \<^verbatim>\<open>solutionCounter.count\<close>.
\<close>

fun core_countNums ::
  "(grid \<Rightarrow> nat \<Rightarrow> (grid \<times> nat) option) \<Rightarrow> grid \<Rightarrow> nat \<Rightarrow> nat \<Rightarrow> nat \<Rightarrow> nat list
     \<Rightarrow> (grid \<times> nat) option" where
  "core_countNums recurse g cnt row col [] = Some (g, cnt)"
| "core_countNums recurse g cnt row col (num # nums) =
     (if core_isValidPlacement g row col num then
        (case recurse (put g row col num) cnt of
           None \<Rightarrow> None
         | Some (g', cnt') \<Rightarrow>
             let g'' = put g' row col 0 in
             if cnt' \<ge> 2 then Some (g'', cnt')
             else core_countNums recurse g'' cnt' row col nums)
      else core_countNums recurse g cnt row col nums)"

primrec core_countSolutionsFast :: "nat \<Rightarrow> grid \<Rightarrow> nat \<Rightarrow> (grid \<times> nat) option" where
  "core_countSolutionsFast 0 g cnt = None"
| "core_countSolutionsFast (Suc depth) g cnt =
     (if cnt \<ge> 2 then Some (g, cnt)
      else case core_selectCell g of
        None \<Rightarrow> Some (g, cnt + 1)
      | Some (row, col) \<Rightarrow>
          core_countNums (core_countSolutionsFast depth) g cnt row col [1..<10])"

text \<open>
  \<^verbatim>\<open>hasUniqueSolution\<close> counts on \<^verbatim>\<open>gridCopy\<close>, a deep copy; the caller's grid is returned
  as it was handed in.
\<close>

definition core_hasUniqueSolution :: "nat \<Rightarrow> grid \<Rightarrow> (grid \<times> bool) option" where
  "core_hasUniqueSolution depth g =
     (let gridCopy = g in
      case core_countSolutionsFast depth gridCopy 0 of
        None \<Rightarrow> None
      | Some (gridCopy', cnt) \<Rightarrow> Some (g, cnt = 1))"

text \<open>\<^verbatim>\<open>generateFullSudoku\<close>: the three diagonal boxes are filled with shuffled digits
  (\<^verbatim>\<open>grid[row][col] = nums[index++]\<close> over the rows and columns of the box), then
  \<^verbatim>\<open>solveGrid\<close> runs and its result is ignored.\<close>

definition core_fillBox :: "nat \<Rightarrow> nat list \<Rightarrow> grid \<Rightarrow> grid" where
  "core_fillBox box nums g =
     fold (\<lambda>((row, col), index) g. put g row col (nums ! index))
       (zip [(row, col). row \<leftarrow> [box * 3..<box * 3 + 3], col \<leftarrow> [box * 3..<box * 3 + 3]] [0..<9]) g"

fun core_fillDiagonal :: "nat list \<Rightarrow> grid \<Rightarrow> rng \<Rightarrow> grid \<times> rng" where
  "core_fillDiagonal [] g s = (g, s)"
| "core_fillDiagonal (box # boxes) g s =
     (let (nums, s') = shuffleArray [1..<10] s
      in core_fillDiagonal boxes (core_fillBox box nums g) s')"

definition core_generateFullSudoku :: "nat \<Rightarrow> rng \<Rightarrow> (grid \<times> rng) option" where
  "core_generateFullSudoku depth s =
     (let (g, s') = core_fillDiagonal [0..<3] emptyGrid s in
      case core_solveGrid depth g of
        None \<Rightarrow> None
      | Some (solved, g') \<Rightarrow> Some (g', s'))"

section \<open>Difficulty tables and errors\<close>

text \<open>
  A difficulty argument is a property key; \<^verbatim>\<open>difficultyConfig[difficulty]\<close> on an object
  literal is the object's own property, or a property inherited from \<^verbatim>\<open>Object.prototype\<close>
  (an object or function without the configuration fields), or \<^verbatim>\<open>undefined\<close>.
  \<open>objectPrototypeKeys\<close> are the property names of \<^verbatim>\<open>Object.prototype\<close> in ECMAScript.
\<close>

datatype 'a property = Own 'a | Inherited | Undefined

definition objectPrototypeKeys :: "string list" where
  "objectPrototypeKeys =
     [''constructor'', ''hasOwnProperty'', ''isPrototypeOf'', ''propertyIsEnumerable'',
      ''toLocaleString'', ''toString'', ''valueOf'', ''__proto__'', ''__defineGetter__'',
      ''__defineSetter__'', ''__lookupGetter__'', ''__lookupSetter__'']"

definition getProperty :: "(string \<times> 'a) list \<Rightarrow> string \<Rightarrow> 'a property" where
  "getProperty obj key =
     (case map_of obj key of
        Some v \<Rightarrow> Own v
      | None \<Rightarrow> if key \<in> set objectPrototypeKeys then Inherited else Undefined)"

text \<open>
  The errors of the three modules: the \<^verbatim>\<open>TypeError\<close> of destructuring \<^verbatim>\<open>undefined\<close>, the
  \<^verbatim>\<open>Error\<close> of the standalone generator whose message says that the difficulty level (its
  argument) is unknown, and its \<^verbatim>\<open>Error\<close> whose message says that no valid puzzle of the
  given difficulty was generated within the given number of attempts.
\<close>

datatype js_error = TypeError | UnknownDifficulty string | GenerationFailed nat string

definition difficultyTags :: "string set" where
  "difficultyTags = {''easy'', ''medium'', ''hard'', ''expert'', ''master''}"

record core_difficulty =
  minClues :: nat
  maxClues :: nat

definition core_difficultyConfig :: "(string \<times> core_difficulty) list" where
  "core_difficultyConfig =
     [(''easy'', \<lparr>minClues = 36, maxClues = 45\<rparr>),
      (''medium'', \<lparr>minClues = 31, maxClues = 35\<rparr>),
      (''hard'', \<lparr>minClues = 26, maxClues = 30\<rparr>),
      (''expert'', \<lparr>minClues = 22, maxClues = 25\<rparr>),
      (''master'', \<lparr>minClues = 17, maxClues = 21\<rparr>)]"

record solver_difficulty =
  removeCount :: nat
  minCount :: nat

definition SudokuSolver_difficultyLevels :: "(string \<times> solver_difficulty) list" where
  "SudokuSolver_difficultyLevels =
     [(''easy'', \<lparr>removeCount = 30, minCount = 45\<rparr>),
      (''medium'', \<lparr>removeCount = 40, minCount = 35\<rparr>),
      (''hard'', \<lparr>removeCount = 50, minCount = 25\<rparr>),
      (''expert'', \<lparr>removeCount = 55, minCount = 20\<rparr>),
      (''master'', \<lparr>removeCount = 60, minCount = 17\<rparr>)]"

record gen_difficulty =
  targetRemoved :: nat
  maxAttempts :: nat
  timeout :: nat

definition gen_difficultyConfig :: "(string \<times> gen_difficulty) list" where
  "gen_difficultyConfig =
     [(''easy'', \<lparr>targetRemoved = 30, maxAttempts = 1000, timeout = 10000\<rparr>),
      (''medium'', \<lparr>targetRemoved = 40, maxAttempts = 2000, timeout = 15000\<rparr>),
      (''hard'', \<lparr>targetRemoved = 50, maxAttempts = 3000, timeout = 20000\<rparr>),
      (''expert'', \<lparr>targetRemoved = 55, maxAttempts = 5000, timeout = 25000\<rparr>),
      (''master'', \<lparr>targetRemoved = 60, maxAttempts = 10000, timeout = 30000\<rparr>)]"

section \<open>The object-literal module: carving\<close>

text \<open>
  The state of the \<^verbatim>\<open>while\<close> loop of \<^verbatim>\<open>removeNumbers\<close>. \<open>removedCells\<close> is the
  \<^verbatim>\<open>Set\<close> of cell ids (the string of row and column, here the pair), to which a cell is
  added only when it is not a member.
\<close>

record core_carve =
  carve_puzzle :: grid
  carve_removedCells :: "(nat \<times> nat) list"
  carve_allCells :: "(nat \<times> nat) list"
  carve_cellIndex :: nat
  carve_attempts :: nat
  carve_rnd :: rng

text \<open>One iteration of the loop body.\<close>

definition core_removeStep :: "nat \<Rightarrow> core_carve \<Rightarrow> core_carve option" where
  "core_removeStep depth st =
     (let st1 = (if carve_cellIndex st \<ge> length (carve_allCells st)
                 then let (cells, s') = shuffleArray (carve_allCells st) (carve_rnd st)
                      in st\<lparr>carve_allCells := cells, carve_cellIndex := 0, carve_rnd := s'\<rparr>
                 else st);
          (row, col) = carve_allCells st1 ! carve_cellIndex st1;
          st2 = st1\<lparr>carve_cellIndex := carve_cellIndex st1 + 1\<rparr>
      in
      if (row, col) \<in> set (carve_removedCells st2) \<or> cell (carve_puzzle st2) row col = 0
      then Some st2
      else
        let tempValue = cell (carve_puzzle st2) row col;
            p0 = put (carve_puzzle st2) row col 0
        in case core_hasUniqueSolution depth p0 of
             None \<Rightarrow> None
           | Some (p1, unique) \<Rightarrow>
               if unique
               then Some (st2\<lparr>carve_puzzle := p1,
                               carve_removedCells := carve_removedCells st2 @ [(row, col)],
                               carve_attempts := 0\<rparr>)
               else Some (st2\<lparr>carve_puzzle := put p1 row col tempValue,
                               carve_attempts := carve_attempts st2 + 1\<rparr>))"

text \<open>\<^verbatim>\<open>while (removedCells.size < cellsToRemove && attempts < maxAttempts)\<close> with
  \<^verbatim>\<open>maxAttempts = 1000\<close>.\<close>

partial_function (option) core_removeLoop :: "nat \<Rightarrow> nat \<Rightarrow> core_carve \<Rightarrow> core_carve option" where
  "core_removeLoop depth cellsToRemove st =
     (if length (carve_removedCells st) < cellsToRemove \<and> carve_attempts st < 1000
      then Option.bind (core_removeStep depth st) (core_removeLoop depth cellsToRemove)
      else Some st)"

declare core_removeLoop.simps [code]

text \<open>
  \<^verbatim>\<open>removeNumbers\<close>. With an inherited property for the difficulty, \<^verbatim>\<open>minClues\<close> and
  \<^verbatim>\<open>maxClues\<close> are \<^verbatim>\<open>undefined\<close>, \<^verbatim>\<open>cellsToRemove\<close> is \<^verbatim>\<open>NaN\<close> and the loop condition is
  false at once. The warning written to the console when the attempts are used up is not
  part of the result.
\<close>

definition core_removeNumbers ::
  "nat \<Rightarrow> grid \<Rightarrow> string \<Rightarrow> rng \<Rightarrow> (js_error + grid \<times> rng) option" where
  "core_removeNumbers depth fullGrid difficulty s =
     (case getProperty core_difficultyConfig difficulty of
        Undefined \<Rightarrow> Some (Inl TypeError)
      | Inherited \<Rightarrow>
          let (r, s1) = randomBelow 1 s;
              (cells, s2) = shuffleArray scanOrder s1
          in Some (Inr (fullGrid, s2))
      | Own config \<Rightarrow>
          let (r, s1) = randomBelow (maxClues config - minClues config + 1) s;
              cluesToKeep = r + minClues config;
              totalCells = 81;
              cellsToRemove = totalCells - cluesToKeep;
              (cells, s2) = shuffleArray scanOrder s1
          in case core_removeLoop depth cellsToRemove
                    \<lparr>carve_puzzle = fullGrid, carve_removedCells = [], carve_allCells = cells,
                     carve_cellIndex = 0, carve_attempts = 0, carve_rnd = s2\<rparr> of
               None \<Rightarrow> None
             | Some st \<Rightarrow> Some (Inr (carve_puzzle st, carve_rnd st)))"

text \<open>\<^verbatim>\<open>generateSudokuPuzzle\<close> returns the puzzle and the solution.\<close>

definition core_generateSudokuPuzzle ::
  "nat \<Rightarrow> string \<Rightarrow> rng \<Rightarrow> (js_error + (grid \<times> grid) \<times> rng) option" where
  "core_generateSudokuPuzzle depth difficulty s =
     (case core_generateFullSudoku depth s of
        None \<Rightarrow> None
      | Some (solution, s1) \<Rightarrow>
          (case core_removeNumbers depth solution difficulty s1 of
             None \<Rightarrow> None
           | Some (Inl e) \<Rightarrow> Some (Inl e)
           | Some (Inr (puzzle, s2)) \<Rightarrow> Some (Inr ((puzzle, solution), s2))))"

section \<open>The class SudokuSolver\<close>

definition SudokuSolver_emptyCells :: "grid \<Rightarrow> (nat \<times> nat \<times> nat list) list" where
  "SudokuSolver_emptyCells g =
     [(row, col, filter (SudokuSolver_isValidPlacement g row col) [1..<10]).
        (row, col) \<leftarrow> scanOrder, cell g row col = 0]"

text \<open>The candidate loop of \<^verbatim>\<open>solveGrid\<close>, over the (possibly shuffled) \<^verbatim>\<open>possibilities\<close>.\<close>

fun SudokuSolver_tryNums ::
  "(grid \<Rightarrow> rng \<Rightarrow> (bool \<times> grid \<times> rng) option) \<Rightarrow> grid \<Rightarrow> rng \<Rightarrow> nat \<Rightarrow> nat \<Rightarrow> nat list
     \<Rightarrow> (bool \<times> grid \<times> rng) option" where
  "SudokuSolver_tryNums recurse g s row col [] = Some (False, g, s)"
| "SudokuSolver_tryNums recurse g s row col (num # nums) =
     (if SudokuSolver_isValidPlacement g row col num then
        (case recurse (put g row col num) s of
           None \<Rightarrow> None
         | Some (True, g', s') \<Rightarrow> Some (True, g', s')
         | Some (False, g', s') \<Rightarrow> SudokuSolver_tryNums recurse (put g' row col 0) s' row col nums)
      else SudokuSolver_tryNums recurse g s row col nums)"

primrec SudokuSolver_solveGrid ::
  "nat \<Rightarrow> bool \<Rightarrow> grid \<Rightarrow> rng \<Rightarrow> (bool \<times> grid \<times> rng) option" where
  "SudokuSolver_solveGrid 0 randomize g s = None"
| "SudokuSolver_solveGrid (Suc depth) randomize g s =
     (let emptyCells = SudokuSolver_emptyCells g in
      if emptyCells = [] then Some (True, g, s)
      else
        let (row, col, possibilities) =
              hd (sort_key (\<lambda>(row, col, possibilities). length possibilities) emptyCells);
            (possibilities', s') =
              (if randomize \<and> length possibilities > 1 then shuffleArray possibilities s
               else (possibilities, s))
        in SudokuSolver_tryNums (\<lambda>g s. SudokuSolver_solveGrid depth randomize g s)
             g s' row col possibilities')"

definition SudokuSolver_generateFullSudoku :: "nat \<Rightarrow> rng \<Rightarrow> (grid \<times> rng) option" where
  "SudokuSolver_generateFullSudoku depth s =
     (case SudokuSolver_solveGrid depth True emptyGrid s of
        None \<Rightarrow> None
      | Some (solved, g', s') \<Rightarrow> Some (g', s'))"

text \<open>
  \<^verbatim>\<open>countSolutionsFast\<close>: the inner function \<^verbatim>\<open>backtrack\<close> works on \<^verbatim>\<open>workingGrid\<close>, a deep
  copy of the argument, and on \<^verbatim>\<open>solutionCount\<close>.
\<close>

fun SudokuSolver_backtrackNums ::
  "(grid \<Rightarrow> nat \<Rightarrow> (grid \<times> nat) option) \<Rightarrow> nat \<Rightarrow> grid \<Rightarrow> nat \<Rightarrow> nat \<Rightarrow> nat \<Rightarrow> nat list
     \<Rightarrow> (grid \<times> nat) option" where
  "SudokuSolver_backtrackNums recurse maxSolutions g solutionCount row col [] =
     Some (g, solutionCount)"
| "SudokuSolver_backtrackNums recurse maxSolutions g solutionCount row col (num # nums) =
     (if SudokuSolver_isValidPlacement g row col num then
        (case recurse (put g row col num) solutionCount of
           None \<Rightarrow> None
         | Some (g', solutionCount') \<Rightarrow>
             let g'' = put g' row col 0 in
             if solutionCount' \<ge> maxSolutions then Some (g'', solutionCount')
             else SudokuSolver_backtrackNums recurse maxSolutions g'' solutionCount' row col nums)
      else SudokuSolver_backtrackNums recurse maxSolutions g solutionCount row col nums)"

primrec SudokuSolver_backtrack :: "nat \<Rightarrow> nat \<Rightarrow> grid \<Rightarrow> nat \<Rightarrow> (grid \<times> nat) option" where
  "SudokuSolver_backtrack 0 maxSolutions workingGrid solutionCount = None"
| "SudokuSolver_backtrack (Suc depth) maxSolutions workingGrid solutionCount =
     (if solutionCount \<ge> maxSolutions then Some (workingGrid, solutionCount)
      else
        let emptyCells = SudokuSolver_emptyCells workingGrid in
        if emptyCells = [] then Some (workingGrid, solutionCount + 1)
        else
          let (row, col, possibilities) =
                hd (sort_key (\<lambda>(row, col, possibilities). length possibilities) emptyCells)
          in if possibilities = [] then Some (workingGrid, solutionCount)
             else SudokuSolver_backtrackNums (SudokuSolver_backtrack depth maxSolutions) maxSolutions
                    workingGrid solutionCount row col possibilities)"

text \<open>The result is the caller's grid, which the function does not write, and the count.\<close>

definition SudokuSolver_countSolutionsFast :: "nat \<Rightarrow> grid \<Rightarrow> nat \<Rightarrow> (grid \<times> nat) option" where
  "SudokuSolver_countSolutionsFast depth g maxSolutions =
     (let workingGrid = g in
      case SudokuSolver_backtrack depth maxSolutions workingGrid 0 of
        None \<Rightarrow> None
      | Some (workingGrid', solutionCount) \<Rightarrow> Some (g, solutionCount))"

text \<open>
  The loop \<^verbatim>\<open>for (const pos of positions)\<close> of \<^verbatim>\<open>removeNumbers\<close>. \<open>cellsToRemove\<close> is
  \<open>None\<close> when it is not a number (the configuration is an inherited property):
  then \<^verbatim>\<open>cellsToRemove <= 0\<close> is false. \<open>removedPositions\<close> is the stack of removed
  positions with their values, the top first.
\<close>

fun SudokuSolver_removeLoop ::
  "nat \<Rightarrow> (nat \<times> nat) list \<Rightarrow> grid \<Rightarrow> nat option \<Rightarrow> (nat \<times> nat \<times> nat) list
     \<Rightarrow> (grid \<times> (nat \<times> nat \<times> nat) list) option" where
  "SudokuSolver_removeLoop depth [] puzzleGrid cellsToRemove removedPositions =
     Some (puzzleGrid, removedPositions)"
| "SudokuSolver_removeLoop depth ((row, col) # positions) puzzleGrid cellsToRemove removedPositions =
     (if (case cellsToRemove of Some n \<Rightarrow> n \<le> 0 | None \<Rightarrow> False)
      then Some (puzzleGrid, removedPositions)
      else
        let backup = cell puzzleGrid row col;
            p0 = put puzzleGrid row col 0;
            removed1 = (row, col, backup) # removedPositions
        in case SudokuSolver_countSolutionsFast depth p0 2 of
             None \<Rightarrow> None
           | Some (p1, solutionCount) \<Rightarrow>
               if solutionCount \<noteq> 1
               then SudokuSolver_removeLoop depth positions (put p1 row col backup)
                      cellsToRemove (tl removed1)
               else SudokuSolver_removeLoop depth positions p1
                      (map_option (\<lambda>n. n - 1) cellsToRemove) removed1)"

text \<open>The loop that puts removed digits back, \<^verbatim>\<open>countToRestore\<close> times at most.\<close>

fun SudokuSolver_restore :: "nat \<Rightarrow> grid \<Rightarrow> (nat \<times> nat \<times> nat) list \<Rightarrow> grid" where
  "SudokuSolver_restore 0 puzzleGrid removedPositions = puzzleGrid"
| "SudokuSolver_restore (Suc k) puzzleGrid [] = puzzleGrid"
| "SudokuSolver_restore (Suc k) puzzleGrid ((row, col, v) # removedPositions) =
     SudokuSolver_restore k (put puzzleGrid row col v) removedPositions"

text \<open>
  \<^verbatim>\<open>removeNumbers\<close>: an unknown difficulty is replaced by the medium configuration
  (\<^verbatim>\<open>this.difficultyLevels[difficulty] || this.difficultyLevels.medium\<close>).
\<close>

definition SudokuSolver_removeNumbers ::
  "nat \<Rightarrow> grid \<Rightarrow> string \<Rightarrow> rng \<Rightarrow> (grid \<times> rng) option" where
  "SudokuSolver_removeNumbers depth fullGrid difficulty s =
     (let config = (case getProperty SudokuSolver_difficultyLevels difficulty of
                      Own c \<Rightarrow> Some c
                    | Inherited \<Rightarrow> None
                    | Undefined \<Rightarrow> map_of SudokuSolver_difficultyLevels ''medium'');
          cellsToRemove = map_option removeCount config;
          (positions, s') = shuffleArray scanOrder s
      in case SudokuSolver_removeLoop depth positions fullGrid cellsToRemove [] of
           None \<Rightarrow> None
         | Some (puzzleGrid, removedPositions) \<Rightarrow>
             let remainingNumbers = length (filter (\<lambda>c. c \<noteq> 0) (concat puzzleGrid)) in
             if (case config of Some c \<Rightarrow> remainingNumbers < minCount c | None \<Rightarrow> False)
                \<and> length removedPositions > 0
             then
               let countToRestore = max 0 (minCount (the config) - remainingNumbers)
               in Some (SudokuSolver_restore countToRestore puzzleGrid removedPositions, s')
             else Some (puzzleGrid, s'))"

definition SudokuSolver_generatePuzzle ::
  "nat \<Rightarrow> string \<Rightarrow> rng \<Rightarrow> ((grid \<times> grid) \<times> rng) option" where
  "SudokuSolver_generatePuzzle depth difficulty s =
     (case SudokuSolver_generateFullSudoku depth s of
        None \<Rightarrow> None
      | Some (solution, s1) \<Rightarrow>
          (case SudokuSolver_removeNumbers depth solution difficulty s1 of
             None \<Rightarrow> None
           | Some (puzzle, s2) \<Rightarrow> Some ((puzzle, solution), s2)))"

section \<open>The standalone generator\<close>

text \<open>
  The cell selection of \<^verbatim>\<open>solveGrid\<close>: a running minimum over the scan; the state is the
  best cell (\<open>None\<close> for \<^verbatim>\<open>bestRow = bestCol = -1\<close>), \<^verbatim>\<open>minPossibilities\<close> and
  \<^verbatim>\<open>bestPossibilities\<close>.
\<close>

type_synonym gen_best = "(nat \<times> nat) option \<times> nat \<times> nat list"

definition gen_scanCell :: "grid \<Rightarrow> gen_best \<Rightarrow> nat \<times> nat \<Rightarrow> gen_best" where
  "gen_scanCell g best rc =
     (case (best, rc) of ((bestCell, minPossibilities, bestPossibilities), (row, col)) \<Rightarrow>
        if cell g row col = 0 then
          let possibilities = filter (gen_isValidPlacement g row col) [1..<10] in
          if length possibilities < minPossibilities
          then (Some (row, col), length possibilities, possibilities)
          else (bestCell, minPossibilities, bestPossibilities)
        else (bestCell, minPossibilities, bestPossibilities))"

definition gen_findBest :: "grid \<Rightarrow> gen_best" where
  "gen_findBest g = foldl (gen_scanCell g) (None, 10, []) scanOrder"

text \<open>The candidate loop of \<^verbatim>\<open>solveGrid\<close>: no validity check, the candidates were valid
  when they were collected.\<close>

fun gen_tryNums ::
  "(grid \<Rightarrow> rng \<Rightarrow> (bool \<times> grid \<times> rng) option) \<Rightarrow> grid \<Rightarrow> rng \<Rightarrow> nat \<Rightarrow> nat \<Rightarrow> nat list
     \<Rightarrow> (bool \<times> grid \<times> rng) option" where
  "gen_tryNums recurse g s bestRow bestCol [] = Some (False, g, s)"
| "gen_tryNums recurse g s bestRow bestCol (num # nums) =
     (case recurse (put g bestRow bestCol num) s of
        None \<Rightarrow> None
      | Some (True, g', s') \<Rightarrow> Some (True, g', s')
      | Some (False, g', s') \<Rightarrow> gen_tryNums recurse (put g' bestRow bestCol 0) s' bestRow bestCol nums)"

primrec gen_solveGrid :: "nat \<Rightarrow> grid \<Rightarrow> rng \<Rightarrow> (bool \<times> grid \<times> rng) option" where
  "gen_solveGrid 0 g s = None"
| "gen_solveGrid (Suc depth) g s =
     (case gen_findBest g of
        (None, minPossibilities, bestPossibilities) \<Rightarrow> Some (True, g, s)
      | (Some (bestRow, bestCol), minPossibilities, bestPossibilities) \<Rightarrow>
          let (shuffled, s') = shuffleArray bestPossibilities s
          in gen_tryNums (\<lambda>g s. gen_solveGrid depth g s) g s' bestRow bestCol shuffled)"

text \<open>
  The cell selection of \<^verbatim>\<open>countSolutionsFast\<close>: as in \<^verbatim>\<open>solveGrid\<close>, but an empty cell
  without candidates ends the function (\<^verbatim>\<open>return true\<close>); this is the result \<open>None\<close>
  of the scan.
\<close>

fun gen_scanCount :: "grid \<Rightarrow> (nat \<times> nat) list \<Rightarrow> gen_best \<Rightarrow> gen_best option" where
  "gen_scanCount g [] best = Some best"
| "gen_scanCount g ((row, col) # cells) (bestCell, minPossibilities, bestPossibilities) =
     (if cell g row col = 0 then
        let possibilities = filter (gen_isValidPlacement g row col) [1..<10] in
        if length possibilities = 0 then None
        else if length possibilities < minPossibilities
          then gen_scanCount g cells (Some (row, col), length possibilities, possibilities)
          else gen_scanCount g cells (bestCell, minPossibilities, bestPossibilities)
      else gen_scanCount g cells (bestCell, minPossibilities, bestPossibilities))"

text \<open>
  The candidate loop of \<^verbatim>\<open>countSolutionsFast\<close>. The boolean result says whether the
  search goes on.
\<close>

fun gen_countNums ::
  "(grid \<Rightarrow> nat \<Rightarrow> rng \<Rightarrow> (bool \<times> grid \<times> nat \<times> rng) option) \<Rightarrow> grid \<Rightarrow> nat \<Rightarrow> rng
     \<Rightarrow> nat \<Rightarrow> nat \<Rightarrow> nat list \<Rightarrow> (bool \<times> grid \<times> nat \<times> rng) option" where
  "gen_countNums recurse g cnt s bestRow bestCol [] = Some (True, g, cnt, s)"
| "gen_countNums recurse g cnt s bestRow bestCol (num # nums) =
     (case recurse (put g bestRow bestCol num) cnt s of
        None \<Rightarrow> None
      | Some (continue, g', cnt', s') \<Rightarrow>
          if \<not> continue then Some (False, put g' bestRow bestCol 0, cnt', s')
          else
            let g'' = put g' bestRow bestCol 0 in
            if cnt' \<ge> 2 then Some (False, g'', cnt', s')
            else gen_countNums recurse g'' cnt' s' bestRow bestCol nums)"

primrec gen_countSolutionsFast ::
  "nat \<Rightarrow> grid \<Rightarrow> nat \<Rightarrow> rng \<Rightarrow> (bool \<times> grid \<times> nat \<times> rng) option" where
  "gen_countSolutionsFast 0 g cnt s = None"
| "gen_countSolutionsFast (Suc depth) g cnt s =
     (if cnt \<ge> 2 then Some (False, g, cnt, s)
      else case gen_scanCount g scanOrder (None, 10, []) of
        None \<Rightarrow> Some (True, g, cnt, s)
      | Some (None, minPossibilities, bestPossibilities) \<Rightarrow>
          Some (cnt + 1 < 2, g, cnt + 1, s)
      | Some (Some (bestRow, bestCol), minPossibilities, bestPossibilities) \<Rightarrow>
          let (shuffled, s') = shuffleArray bestPossibilities s
          in gen_countNums (\<lambda>g cnt s. gen_countSolutionsFast depth g cnt s)
               g cnt s' bestRow bestCol shuffled)"

text \<open>\<^verbatim>\<open>generateFullSudoku\<close>: \<^verbatim>\<open>grid[i*3 + row][i*3 + col] = numbers[row*3 + col]\<close> for the
  three diagonal boxes, then \<^verbatim>\<open>solveGrid\<close>, whose result is ignored.\<close>

definition gen_fillBox :: "nat \<Rightarrow> nat list \<Rightarrow> grid \<Rightarrow> grid" where
  "gen_fillBox i numbers g =
     fold (\<lambda>(row, col) g. put g (i * 3 + row) (i * 3 + col) (numbers ! (row * 3 + col)))
       [(row, col). row \<leftarrow> [0..<3], col \<leftarrow> [0..<3]] g"

fun gen_fillDiagonal :: "nat list \<Rightarrow> grid \<Rightarrow> rng \<Rightarrow> grid \<times> rng" where
  "gen_fillDiagonal [] g s = (g, s)"
| "gen_fillDiagonal (i # boxes) g s =
     (let (numbers, s') = shuffleArray [1..<10] s
      in gen_fillDiagonal boxes (gen_fillBox i numbers g) s')"

definition gen_generateFullSudoku :: "nat \<Rightarrow> rng \<Rightarrow> (grid \<times> rng) option" where
  "gen_generateFullSudoku depth s =
     (let (g, s') = gen_fillDiagonal [0..<3] emptyGrid s in
      case gen_solveGrid depth g s' of
        None \<Rightarrow> None
      | Some (solved, g', s'') \<Rightarrow> Some (g', s''))"

text \<open>
  The loop of \<^verbatim>\<open>removeNumbers\<close>:
  \<^verbatim>\<open>while (removed < count && attempts < maxAttempts && positions.length > 0)\<close> with
  \<^verbatim>\<open>maxAttempts = count * 100\<close>. Each iteration takes the last position off the array;
  the list argument is the array from its last element to its first. The count runs on
  \<^verbatim>\<open>gridCopy\<close>, a clone of the puzzle.
\<close>

fun gen_removeLoop ::
  "nat \<Rightarrow> nat \<Rightarrow> (nat \<times> nat) list \<Rightarrow> grid \<Rightarrow> nat \<Rightarrow> nat \<Rightarrow> rng \<Rightarrow> (grid \<times> rng) option" where
  "gen_removeLoop depth cnt [] puzzle removed attempts s = Some (puzzle, s)"
| "gen_removeLoop depth cnt ((row, col) # positions) puzzle removed attempts s =
     (if removed < cnt \<and> attempts < cnt * 100 then
        (if cell puzzle row col \<noteq> 0 then
           let temp = cell puzzle row col;
               p0 = put puzzle row col 0;
               gridCopy = p0
           in case gen_countSolutionsFast depth gridCopy 0 s of
                None \<Rightarrow> None
              | Some (continue, gridCopy', solutionCount, s') \<Rightarrow>
                  if solutionCount = 1
                  then gen_removeLoop depth cnt positions p0 (removed + 1) (attempts + 1) s'
                  else gen_removeLoop depth cnt positions (put p0 row col temp) removed
                         (attempts + 1) s'
         else gen_removeLoop depth cnt positions puzzle removed (attempts + 1) s)
      else Some (puzzle, s))"

text \<open>\<^verbatim>\<open>removeNumbers(grid, count)\<close>; \<open>count\<close> is \<open>None\<close> when the argument is
  \<^verbatim>\<open>undefined\<close>, and then the loop condition is false at once.\<close>

definition gen_removeNumbers :: "nat \<Rightarrow> grid \<Rightarrow> nat option \<Rightarrow> rng \<Rightarrow> (grid \<times> rng) option" where
  "gen_removeNumbers depth g cnt s =
     (let (positions, s') = shuffleArray scanOrder s in
      case cnt of
        None \<Rightarrow> Some (g, s')
      | Some n \<Rightarrow> gen_removeLoop depth n (rev positions) g 0 0 s')"

text \<open>
  The attempts of \<^verbatim>\<open>generateSudokuPuzzle\<close>, counted down from \<^verbatim>\<open>maxAttempts = 50\<close>. A
  puzzle is accepted when \<^verbatim>\<open>emptyCount >= config.targetRemoved * 0.8\<close>. When the attempts
  are used up the function throws.
\<close>

fun gen_attemptLoop ::
  "nat \<Rightarrow> nat \<Rightarrow> string \<Rightarrow> nat option \<Rightarrow> rng \<Rightarrow> (js_error + (grid \<times> grid) \<times> rng) option" where
  "gen_attemptLoop depth 0 difficulty target s = Some (Inl (GenerationFailed 50 difficulty))"
| "gen_attemptLoop depth (Suc k) difficulty target s =
     (case gen_generateFullSudoku depth s of
        None \<Rightarrow> None
      | Some (solution, s1) \<Rightarrow>
          (case gen_removeNumbers depth solution target s1 of
             None \<Rightarrow> None
           | Some (puzzle, s2) \<Rightarrow>
               let emptyCount = length (filter (\<lambda>c. c = 0) (concat puzzle)) in
               if (case target of Some t \<Rightarrow> 5 * emptyCount \<ge> 4 * t | None \<Rightarrow> False)
               then Some (Inr ((puzzle, solution), s2))
               else gen_attemptLoop depth k difficulty target s2))"

definition gen_generateSudokuPuzzle ::
  "nat \<Rightarrow> string \<Rightarrow> rng \<Rightarrow> (js_error + (grid \<times> grid) \<times> rng) option" where
  "gen_generateSudokuPuzzle depth difficulty s =
     (case getProperty gen_difficultyConfig difficulty of
        Undefined \<Rightarrow> Some (Inl (UnknownDifficulty difficulty))
      | Inherited \<Rightarrow> gen_attemptLoop depth 50 difficulty None s
      | Own config \<Rightarrow> gen_attemptLoop depth 50 difficulty (Some (targetRemoved config)) s)"

section \<open>Valid grids and their completions\<close>

text \<open>Two different cells see each other when they share a row, a column or a box.\<close>

definition peers :: "nat \<times> nat \<Rightarrow> nat \<times> nat \<Rightarrow> bool" where
  "peers p q \<longleftrightarrow>
     p \<noteq> q \<and> (fst p = fst q \<or> snd p = snd q \<or>
               (fst p div 3 = fst q div 3 \<and> snd p div 3 = snd q div 3))"

definition at :: "grid \<Rightarrow> nat \<times> nat \<Rightarrow> nat" where
  "at g p = cell g (fst p) (snd p)"

text \<open>No digit occurs twice in a row, a column or a box.\<close>

definition no_dup :: "grid \<Rightarrow> bool" where
  "no_dup g \<longleftrightarrow>
     (\<forall>p \<in> set scanOrder. \<forall>q \<in> set scanOrder. peers p q \<and> at g p \<noteq> 0 \<longrightarrow> at g p \<noteq> at g q)"

text \<open>A structurally valid grid: 9x9, entries in \<open>0..9\<close>, no duplicate digit.\<close>

definition structurally_valid :: "grid \<Rightarrow> bool" where
  "structurally_valid g \<longleftrightarrow> grid9 g \<and> (\<forall>p \<in> set scanOrder. at g p \<le> 9) \<and> no_dup g"

definition complete :: "grid \<Rightarrow> bool" where
  "complete g \<longleftrightarrow> (\<forall>p \<in> set scanOrder. at g p \<noteq> 0)"

text \<open>A completely filled grid that satisfies the Sudoku constraints.\<close>

definition solved :: "grid \<Rightarrow> bool" where
  "solved g \<longleftrightarrow> structurally_valid g \<and> complete g"

definition extends :: "grid \<Rightarrow> grid \<Rightarrow> bool" where
  "extends g s \<longleftrightarrow> (\<forall>p \<in> set scanOrder. at g p \<noteq> 0 \<longrightarrow> at s p = at g p)"

text \<open>The complete valid fillings of a grid.\<close>

definition fillings :: "grid \<Rightarrow> grid set" where
  "fillings g = {s. solved s \<and> extends g s}"

definition empties :: "grid \<Rightarrow> nat" where
  "empties g = length (filter (\<lambda>p. at g p = 0) scanOrder)"

text \<open>
  Adding \<open>n\<close> solutions to a counter that stops at \<open>cap\<close>: a counter that has reached
  the cap is left as it is.
\<close>

definition capped_add :: "nat \<Rightarrow> nat \<Rightarrow> nat \<Rightarrow> nat" where
  "capped_add cap cnt n = (if cnt \<ge> cap then cnt else min cap (cnt + n))"

text \<open>The values of the rows, columns and boxes of a grid; boxes are numbered row-wise.\<close>

definition row_values :: "grid \<Rightarrow> nat \<Rightarrow> nat list" where
  "row_values g r = map (\<lambda>c. cell g r c) [0..<9]"

definition col_values :: "grid \<Rightarrow> nat \<Rightarrow> nat list" where
  "col_values g c = map (\<lambda>r. cell g r c) [0..<9]"

definition box_values :: "grid \<Rightarrow> nat \<Rightarrow> nat list" where
  "box_values g b = map (\<lambda>i. cell g ((b div 3) * 3 + i div 3) ((b mod 3) * 3 + i mod 3)) [0..<9]"

definition permutation_of_digits :: "nat list \<Rightarrow> bool" where
  "permutation_of_digits xs \<longleftrightarrow> mset xs = mset [1..<10]"

section \<open>Example grids\<close>

text \<open>The solved grid of the specification's scenarios.\<close>

definition canonicalGrid :: grid where
  "canonicalGrid =
     [[1,2,3,4,5,6,7,8,9],
      [4,5,6,7,8,9,1,2,3],
      [7,8,9,1,2,3,4,5,6],
      [2,3,4,5,6,7,8,9,1],
      [5,6,7,8,9,1,2,3,4],
      [8,9,1,2,3,4,5,6,7],
      [3,4,5,6,7,8,9,1,2],
      [6,7,8,9,1,2,3,4,5],
      [9,1,2,3,4,5,6,7,8]]"

text \<open>A grid whose only digits are 2 to 9 in the first row, from the second cell on.\<close>

definition firstRowGrid :: grid where
  "firstRowGrid =
     [[0,2,3,4,5,6,7,8,9],
      [0,0,0,0,0,0,0,0,0],
      [0,0,0,0,0,0,0,0,0],
      [0,0,0,0,0,0,0,0,0],
      [0,0,0,0,0,0,0,0,0],
      [0,0,0,0,0,0,0,0,0],
      [0,0,0,0,0,0,0,0,0],
      [0,0,0,0,0,0,0,0,0],
      [0,0,0,0,0,0,0,0,0]]"

text \<open>A random source that always answers 0.\<close>

definition zeroSource :: rng where
  "zeroSource = (\<lambda>k. 0)"

section \<open>Placement validity: properties\<close>

lemma ex_less_3: "(\<exists>i<(3::nat). P i) \<longleftrightarrow> P 0 \<or> P 1 \<or> P 2"
proof -
  have "\<And>i::nat. i < 3 \<longleftrightarrow> i = 0 \<or> i = 1 \<or> i = 2" by arith
  then show ?thesis by auto
qed

lemma list_ex_upt: "list_ex P [0..<n] \<longleftrightarrow> (\<exists>i<n. P i)"
  by (auto simp: list_ex_iff)

lemma box_index_less: "n < 9 \<Longrightarrow> i < 3 \<Longrightarrow> (n div 3) * 3 + i < (9::nat)"
  by arith

lemma box_cells:
  assumes "row < 9" "col < 9"
  shows "(\<exists>i<3. \<exists>j<3. cell g ((row div 3) * 3 + i) ((col div 3) * 3 + j) = d) \<longleftrightarrow> in_box g row col d"
proof
  assume "\<exists>i<3. \<exists>j<3. cell g ((row div 3) * 3 + i) ((col div 3) * 3 + j) = d"
  then obtain i j where ij: "i < 3" "j < 3"
    and d: "cell g ((row div 3) * 3 + i) ((col div 3) * 3 + j) = d" by blast
  let ?r = "(row div 3) * 3 + i" and ?c = "(col div 3) * 3 + j"
  have "?r < 9" "?c < 9" "?r div 3 = row div 3" "?c div 3 = col div 3"
    using assms ij by (simp_all add: box_index_less)
  with d show "in_box g row col d" unfolding in_box_def by blast
next
  assume "in_box g row col d"
  then obtain r c where rc: "r < 9" "c < 9" "r div 3 = row div 3" "c div 3 = col div 3"
    and d: "cell g r c = d" unfolding in_box_def by blast
  have "r = (row div 3) * 3 + r mod 3" "c = (col div 3) * 3 + c mod 3"
    using rc by (metis div_mult_mod_eq)+
  moreover have "r mod 3 < 3" "c mod 3 < 3" by auto
  ultimately show "\<exists>i<3. \<exists>j<3. cell g ((row div 3) * 3 + i) ((col div 3) * 3 + j) = d"
    using d by metis
qed

lemma core_isValidPlacement_iff:
  assumes "row < 9" "col < 9"
  shows "core_isValidPlacement g row col d \<longleftrightarrow>
           \<not> (in_row g row d \<or> in_col g col d \<or> in_box g row col d)"
  using box_cells[OF assms, of g d]
  by (simp add: core_isValidPlacement_def Let_def list_ex_upt in_row_def in_col_def)

lemma SudokuSolver_isValidPlacement_eq:
  "SudokuSolver_isValidPlacement = core_isValidPlacement"
  by (simp add: fun_eq_iff SudokuSolver_isValidPlacement_def core_isValidPlacement_def add.commute)

lemma box_cells_linear:
  assumes "row < 9" "col < 9"
  shows "(\<exists>i<9. cell g ((row div 3) * 3 + i div 3) ((col div 3) * 3 + i mod 3) = d)
           \<longleftrightarrow> in_box g row col d"
proof -
  have "(\<exists>i<9. cell g ((row div 3) * 3 + i div 3) ((col div 3) * 3 + i mod 3) = d)
          \<longleftrightarrow> (\<exists>i<3. \<exists>j<3. cell g ((row div 3) * 3 + i) ((col div 3) * 3 + j) = d)"
  proof
    assume "\<exists>i<9. cell g ((row div 3) * 3 + i div 3) ((col div 3) * 3 + i mod 3) = d"
    then obtain i where "i < 9"
      and d: "cell g ((row div 3) * 3 + i div 3) ((col div 3) * 3 + i mod 3) = d" by blast
    then have "i div 3 < 3" "i mod 3 < 3" by auto
    with d show "\<exists>i<3. \<exists>j<3. cell g ((row div 3) * 3 + i) ((col div 3) * 3 + j) = d" by blast
  next
    assume "\<exists>i<3. \<exists>j<3. cell g ((row div 3) * 3 + i) ((col div 3) * 3 + j) = d"
    then obtain i j where ij: "i < 3" "j < 3"
      and d: "cell g ((row div 3) * 3 + i) ((col div 3) * 3 + j) = d" by blast
    have "3 * i + j < 9" "(3 * i + j) div 3 = i" "(3 * i + j) mod 3 = j" using ij by auto
    with d show "\<exists>i<9. cell g ((row div 3) * 3 + i div 3) ((col div 3) * 3 + i mod 3) = d"
      by metis
  qed
  then show ?thesis using box_cells[OF assms] by simp
qed

lemma gen_isValidPlacement_iff:
  assumes "row < 9" "col < 9"
  shows "gen_isValidPlacement g row col d \<longleftrightarrow>
           \<not> (in_row g row d \<or> in_col g col d \<or> in_box g row col d)"
proof -
  have "gen_isValidPlacement g row col d \<longleftrightarrow>
          \<not> ((\<exists>i<9. cell g row i = d) \<or> (\<exists>i<9. cell g i col = d) \<or>
             (\<exists>i<9. cell g ((row div 3) * 3 + i div 3) ((col div 3) * 3 + i mod 3) = d))"
    by (auto simp: gen_isValidPlacement_def Let_def list_ex_upt)
  then show ?thesis
    using box_cells_linear[OF assms, of g d] by (simp add: in_row_def in_col_def)
qed

lemma gen_isValidPlacement_eq:
  "row < 9 \<Longrightarrow> col < 9 \<Longrightarrow> gen_isValidPlacement g row col d = core_isValidPlacement g row col d"
  by (simp add: gen_isValidPlacement_iff core_isValidPlacement_iff)


section \<open>Cells, reads and writes\<close>

lemma set_scanOrder: "set scanOrder = {(r, c). r < 9 \<and> c < 9}"
  by (auto simp: scanOrder_def)

lemma in_scanOrder [simp]: "(r, c) \<in> set scanOrder \<longleftrightarrow> r < 9 \<and> c < 9"
  by (simp add: set_scanOrder)

lemma distinct_scanOrder: "distinct scanOrder"
  unfolding scanOrder_def
  by (rule distinct_concat) (auto simp: distinct_map inj_on_def)

lemma ball_scanOrder: "(\<forall>p \<in> set scanOrder. P p) \<longleftrightarrow> (\<forall>r<9. \<forall>c<9. P (r, c))"
  by (auto simp: set_scanOrder)

lemma at_pair [simp]: "at g (r, c) = cell g r c"
  by (simp add: at_def)

lemma grid9_length: "grid9 g \<Longrightarrow> length g = 9"
  by (simp add: grid9_def)

lemma grid9_row: "grid9 g \<Longrightarrow> r < 9 \<Longrightarrow> length (g ! r) = 9"
  by (simp add: grid9_def list_all_length)

lemma grid9_put: "grid9 g \<Longrightarrow> grid9 (put g r c v)"
proof -
  assume g: "grid9 g"
  have "length ((g[r := (g ! r)[c := v]]) ! n) = 9" if "n < 9" for n
    using g that by (cases "n = r") (simp_all add: grid9_length grid9_row)
  then show ?thesis using g by (simp add: grid9_def put_def list_all_length)
qed

lemma cell_put:
  "grid9 g \<Longrightarrow> r < 9 \<Longrightarrow> c < 9 \<Longrightarrow>
     cell (put g r c v) r' c' = (if r' = r \<and> c' = c then v else cell g r' c')"
  by (auto simp: cell_def put_def nth_list_update grid9_length grid9_row)

lemma grid9_eqI:
  assumes "grid9 g" "grid9 h" "\<And>r c. r < 9 \<Longrightarrow> c < 9 \<Longrightarrow> cell g r c = cell h r c"
  shows "g = h"
proof (rule nth_equalityI)
  show "length g = length h" using assms by (simp add: grid9_length)
next
  fix r assume "r < length g"
  then have r: "r < 9" using assms by (simp add: grid9_length)
  show "g ! r = h ! r"
  proof (rule nth_equalityI)
    show "length (g ! r) = length (h ! r)" using assms r by (simp add: grid9_row)
  next
    fix c assume "c < length (g ! r)"
    then have "c < 9" using assms r by (simp add: grid9_row)
    then show "g ! r ! c = h ! r ! c" using assms(3)[OF r] by (simp add: cell_def)
  qed
qed

lemma put_put_restore:
  assumes "grid9 g" "r < 9" "c < 9" "cell g r c = 0"
  shows "put (put g r c v) r c 0 = g"
  by (rule grid9_eqI) (use assms in \<open>auto simp: grid9_put cell_put\<close>)

lemma put_same:
  assumes "grid9 g" "r < 9" "c < 9" "cell g r c = v"
  shows "put g r c v = g"
  by (rule grid9_eqI) (use assms in \<open>auto simp: grid9_put cell_put\<close>)

lemma put_put:
  assumes "grid9 g" "r < 9" "c < 9"
  shows "put (put g r c v) r c w = put g r c w"
  by (rule grid9_eqI) (use assms in \<open>auto simp: grid9_put cell_put\<close>)

lemma grid9_emptyGrid: "grid9 emptyGrid"
  by (simp add: grid9_def emptyGrid_def list_all_iff)

lemma cell_emptyGrid: "r < 9 \<Longrightarrow> c < 9 \<Longrightarrow> cell emptyGrid r c = 0"
  by (simp add: cell_def emptyGrid_def)

section \<open>Counting empty cells\<close>

lemma length_scanOrder: "length scanOrder = 81"
  by (simp add: scanOrder_def length_concat comp_def sum_list_triv)

lemma empties_le: "empties g \<le> 81"
proof -
  have "empties g \<le> length scanOrder" unfolding empties_def by (rule length_filter_le)
  then show ?thesis by (simp add: length_scanOrder)
qed

lemma empties_card: "empties g = card {p \<in> set scanOrder. at g p = 0}"
proof -
  have "{p \<in> set scanOrder. at g p = 0} = {p. at g p = 0} \<inter> set scanOrder" by blast
  then show ?thesis
    unfolding empties_def by (simp only: distinct_length_filter[OF distinct_scanOrder])
qed

lemma empties_put:
  assumes "grid9 g" "r < 9" "c < 9" "cell g r c = 0" "v \<noteq> 0"
  shows "empties (put g r c v) < empties g"
proof -
  let ?A = "{p \<in> set scanOrder. at (put g r c v) p = 0}"
  let ?B = "{p \<in> set scanOrder. at g p = 0}"
  have "?A \<subseteq> ?B" using assms by (auto simp: cell_put split: if_splits)
  moreover have "(r, c) \<in> ?B" "(r, c) \<notin> ?A" using assms by (auto simp: cell_put)
  ultimately have "?A \<subset> ?B" by blast
  then have "card ?A < card ?B" by (intro psubset_card_mono) auto
  then show ?thesis by (simp add: empties_card)
qed

lemma empties_0_iff: "empties g = 0 \<longleftrightarrow> complete g"
  by (auto simp: empties_def complete_def filter_empty_conv)

section \<open>Valid grids and fillings: basic facts\<close>

lemma no_dup_iff:
  "no_dup g \<longleftrightarrow>
     (\<forall>r<9. \<forall>c<9. \<forall>r'<9. \<forall>c'<9.
        peers (r, c) (r', c') \<and> cell g r c \<noteq> 0 \<longrightarrow> cell g r c \<noteq> cell g r' c')"
  unfolding no_dup_def ball_scanOrder by simp

lemma no_dupD:
  "no_dup g \<Longrightarrow> r < 9 \<Longrightarrow> c < 9 \<Longrightarrow> r' < 9 \<Longrightarrow> c' < 9 \<Longrightarrow> peers (r, c) (r', c')
     \<Longrightarrow> cell g r c \<noteq> 0 \<Longrightarrow> cell g r c \<noteq> cell g r' c'"
  unfolding no_dup_iff by blast

lemma peers_sym: "peers p q \<Longrightarrow> peers q p"
  by (auto simp: peers_def)

lemma occurs_iff:
  assumes "r < 9" "c < 9"
  shows "in_row g r d \<or> in_col g c d \<or> in_box g r c d \<longleftrightarrow>
         (\<exists>r'<9. \<exists>c'<9. (r' = r \<and> c' = c \<or> peers (r, c) (r', c')) \<and> cell g r' c' = d)"
    (is "?L \<longleftrightarrow> ?R")
proof
  assume ?L
  then consider x where "x < 9" "cell g r x = d" | x where "x < 9" "cell g x c = d"
    | r' c' where "r' < 9" "c' < 9" "r' div 3 = r div 3" "c' div 3 = c div 3" "cell g r' c' = d"
    unfolding in_row_def in_col_def in_box_def by blast
  then show ?R
  proof cases
    case 1
    then show ?thesis using assms by (intro exI[of _ r] exI[of _ x]) (auto simp: peers_def)
  next
    case 2
    then show ?thesis using assms by (intro exI[of _ x] exI[of _ c]) (auto simp: peers_def)
  next
    case 3
    then show ?thesis by (intro exI[of _ r'] exI[of _ c']) (auto simp: peers_def)
  qed
next
  assume ?R
  then obtain r' c' where rc: "r' < 9" "c' < 9" "cell g r' c' = d"
    and s: "r' = r \<and> c' = c \<or> peers (r, c) (r', c')" by blast
  from s have "r' = r \<or> c' = c \<or> (r' div 3 = r div 3 \<and> c' div 3 = c div 3)"
    by (auto simp: peers_def)
  then show ?L using rc unfolding in_row_def in_col_def in_box_def by blast
qed

lemma valid_placement_iff:
  assumes "r < 9" "c < 9"
  shows "core_isValidPlacement g r c d \<longleftrightarrow>
         \<not> (\<exists>r'<9. \<exists>c'<9. (r' = r \<and> c' = c \<or> peers (r, c) (r', c')) \<and> cell g r' c' = d)"
  using occurs_iff[OF assms, of g d] core_isValidPlacement_iff[OF assms, of g d] by simp

lemma structurally_valid_iff:
  "structurally_valid g \<longleftrightarrow> grid9 g \<and> (\<forall>r<9. \<forall>c<9. cell g r c \<le> 9) \<and> no_dup g"
  unfolding structurally_valid_def ball_scanOrder by simp

lemma complete_iff: "complete g \<longleftrightarrow> (\<forall>r<9. \<forall>c<9. cell g r c \<noteq> 0)"
  unfolding complete_def ball_scanOrder by simp

lemma extends_iff:
  "extends g s \<longleftrightarrow> (\<forall>r<9. \<forall>c<9. cell g r c \<noteq> 0 \<longrightarrow> cell s r c = cell g r c)"
  unfolding extends_def ball_scanOrder by simp

lemma structurally_valid_put:
  assumes g: "structurally_valid g" and rc: "r < 9" "c < 9" and e: "cell g r c = 0"
    and d: "d \<le> 9" and v: "core_isValidPlacement g r c d"
  shows "structurally_valid (put g r c d)"
proof -
  have g9: "grid9 g" and le: "\<And>r c. r < 9 \<Longrightarrow> c < 9 \<Longrightarrow> cell g r c \<le> 9" and nd: "no_dup g"
    using g by (auto simp: structurally_valid_iff)
  have free: "\<And>r' c'. r' < 9 \<Longrightarrow> c' < 9 \<Longrightarrow> peers (r, c) (r', c') \<Longrightarrow> cell g r' c' \<noteq> d"
    using v rc by (auto simp: valid_placement_iff)
  have "no_dup (put g r c d)"
    unfolding no_dup_iff
  proof (intro allI impI, elim conjE)
    fix a b a' b'
    assume ab: "a < 9" "b < 9" "a' < 9" "b' < 9"
      and p: "peers (a, b) (a', b')" and nz: "cell (put g r c d) a b \<noteq> 0"
    show "cell (put g r c d) a b \<noteq> cell (put g r c d) a' b'"
    proof (cases "a = r \<and> b = c")
      case True
      then have "\<not> (a' = r \<and> b' = c)" using p by (auto simp: peers_def)
      then show ?thesis using True free[OF ab(3,4)] p ab g9 rc by (auto simp: cell_put)
    next
      case False
      note nab = this
      show ?thesis
      proof (cases "a' = r \<and> b' = c")
        case True
        then have "peers (r, c) (a, b)" using p peers_sym by blast
        then show ?thesis using True nab free[OF ab(1,2)] g9 rc by (auto simp: cell_put)
      next
        case False
        then show ?thesis using nab no_dupD[OF nd ab p] nz g9 rc by (auto simp: cell_put)
      qed
    qed
  qed
  moreover have "\<forall>a<9. \<forall>b<9. cell (put g r c d) a b \<le> 9"
    using le d g9 rc by (auto simp: cell_put)
  ultimately show ?thesis using g9 by (simp add: structurally_valid_iff grid9_put)
qed

lemma fillings_invalid:
  assumes g9: "grid9 g" and rc: "r < 9" "c < 9" and e: "cell g r c = 0" and d: "d \<noteq> 0"
    and v: "\<not> core_isValidPlacement g r c d"
  shows "fillings (put g r c d) = {}"
proof (rule ccontr)
  assume "fillings (put g r c d) \<noteq> {}"
  then obtain s where s: "solved s" "extends (put g r c d) s" unfolding fillings_def by blast
  from v rc obtain r' c' where q: "r' < 9" "c' < 9" "cell g r' c' = d"
    and pq: "r' = r \<and> c' = c \<or> peers (r, c) (r', c')"
    by (auto simp: valid_placement_iff)
  have ne: "\<not> (r' = r \<and> c' = c)" using q e d by auto
  with pq have p: "peers (r, c) (r', c')" by blast
  have "cell s r c = d" using s(2) rc g9 d by (auto simp: extends_iff cell_put)
  moreover have "cell s r' c' = d" using s(2) q ne g9 rc d by (auto simp: extends_iff cell_put)
  moreover have "no_dup s" using s(1) by (simp add: solved_def structurally_valid_iff)
  ultimately show False using no_dupD[OF _ rc q(1,2) p, of s] d by simp
qed

lemma fillings_branch:
  assumes g9: "grid9 g" and rc: "r < 9" "c < 9" and e: "cell g r c = 0"
  shows "fillings g = (\<Union>d\<in>{1..<10}. fillings (put g r c d))"
proof (intro set_eqI iffI)
  fix s assume "s \<in> fillings g"
  then have s: "solved s" "extends g s" by (auto simp: fillings_def)
  let ?d = "cell s r c"
  have "?d \<noteq> 0" "?d \<le> 9" using s(1) rc
    by (auto simp: solved_def structurally_valid_iff complete_iff)
  moreover have "extends (put g r c ?d) s"
    using s(2) g9 rc by (auto simp: extends_iff cell_put)
  ultimately show "s \<in> (\<Union>d\<in>{1..<10}. fillings (put g r c d))"
    using s(1) by (auto simp: fillings_def intro!: bexI[of _ ?d])
next
  fix s assume "s \<in> (\<Union>d\<in>{1..<10}. fillings (put g r c d))"
  then obtain d where s: "solved s" "extends (put g r c d) s" by (auto simp: fillings_def)
  have "extends g s"
    unfolding extends_iff
  proof (intro allI impI)
    fix a b assume ab: "a < 9" "b < 9" "cell g a b \<noteq> 0"
    then have "\<not> (a = r \<and> b = c)" using e by auto
    then have "cell (put g r c d) a b = cell g a b" using g9 rc by (auto simp: cell_put)
    then show "cell s a b = cell g a b" using s(2) ab by (auto simp: extends_iff)
  qed
  then show "s \<in> fillings g" using s(1) by (simp add: fillings_def)
qed

lemma fillings_cell:
  assumes "grid9 g" "r < 9" "c < 9" "d \<noteq> 0" "s \<in> fillings (put g r c d)"
  shows "cell s r c = d"
  using assms by (auto simp: fillings_def extends_iff cell_put)

lemma fillings_disjoint:
  assumes g9: "grid9 g" and rc: "r < 9" "c < 9" and d: "d \<noteq> 0" "d' \<noteq> 0" "d \<noteq> d'"
  shows "fillings (put g r c d) \<inter> fillings (put g r c d') = {}"
  using fillings_cell[OF g9 rc d(1)] fillings_cell[OF g9 rc d(2)] d(3) by blast

lemma fillings_complete:
  assumes "structurally_valid g" "complete g"
  shows "fillings g = {g}"
proof (intro set_eqI iffI)
  fix s assume "s \<in> fillings g"
  then have s: "solved s" "extends g s" by (auto simp: fillings_def)
  have "s = g"
    by (rule grid9_eqI)
      (use s assms in \<open>auto simp: solved_def structurally_valid_iff extends_iff complete_iff\<close>)
  then show "s \<in> {g}" by simp
next
  fix s assume "s \<in> {g}"
  then show "s \<in> fillings g"
    using assms by (simp add: fillings_def solved_def extends_def)
qed

lemma finite_fillings: "finite (fillings g)"
proof -
  let ?rows = "{r. set r \<subseteq> {..9::nat} \<and> length r = 9}"
  let ?grids = "{s. set s \<subseteq> ?rows \<and> length s = 9}"
  have "finite ?rows" by (rule finite_lists_length_eq) simp
  then have "finite ?grids" by (rule finite_lists_length_eq)
  moreover have "fillings g \<subseteq> ?grids"
  proof
    fix s assume "s \<in> fillings g"
    then have s9: "grid9 s" and le: "\<And>r c. r < 9 \<Longrightarrow> c < 9 \<Longrightarrow> cell s r c \<le> 9"
      by (auto simp: fillings_def solved_def structurally_valid_iff)
    have "set row \<subseteq> {..9} \<and> length row = 9" if "row \<in> set s" for row
    proof -
      from that obtain r where r: "r < length s" "row = s ! r" by (auto simp: in_set_conv_nth)
      then have r9: "r < 9" using s9 by (simp add: grid9_length)
      have len: "length row = 9" using s9 r r9 by (simp add: grid9_row)
      have "row ! c \<le> 9" if "c < 9" for c using le[OF r9 that] r by (simp add: cell_def)
      then have "set row \<subseteq> {..9}" using len by (auto simp: in_set_conv_nth)
      with len show ?thesis by simp
    qed
    then show "s \<in> ?grids" using s9 by (auto simp: grid9_length)
  qed
  ultimately show ?thesis by (rule rev_finite_subset)
qed

lemma card_fillings_branch:
  assumes g9: "grid9 g" and rc: "r < 9" "c < 9" and e: "cell g r c = 0"
  shows "card (fillings g) = (\<Sum>d\<leftarrow>[1..<10]. card (fillings (put g r c d)))"
proof -
  have "card (fillings g) = card (\<Union>d\<in>{1..<10}. fillings (put g r c d))"
    using fillings_branch[OF g9 rc e] by simp
  also have "\<dots> = (\<Sum>d\<in>{1..<10}. card (fillings (put g r c d)))"
  proof (rule card_UN_disjoint)
    show "\<forall>i\<in>{1..<10}. \<forall>j\<in>{1..<10}. i \<noteq> j \<longrightarrow>
            fillings (put g r c i) \<inter> fillings (put g r c j) = {}"
      using fillings_disjoint[OF g9 rc] by auto
  qed (simp_all add: finite_fillings)
  also have "\<dots> = (\<Sum>d\<leftarrow>[1..<10]. card (fillings (put g r c d)))"
    by (simp add: sum_list_distinct_conv_sum_set)
  finally show ?thesis .
qed

lemma sum_valid_candidates:
  assumes g9: "grid9 g" and rc: "r < 9" "c < 9" and e: "cell g r c = 0"
  shows "(\<Sum>d\<leftarrow>filter (core_isValidPlacement g r c) [1..<10]. card (fillings (put g r c d)))
         = card (fillings g)"
proof -
  have "(\<Sum>d\<leftarrow>filter (core_isValidPlacement g r c) [1..<10]. card (fillings (put g r c d)))
        = (\<Sum>d\<leftarrow>[1..<10]. card (fillings (put g r c d)))"
    by (rule sum_list_map_filter) (use fillings_invalid[OF g9 rc e] in auto)
  then show ?thesis using card_fillings_branch[OF g9 rc e] by simp
qed

lemma sum_list_mset_cong:
  fixes f :: "'a \<Rightarrow> nat"
  assumes "mset xs = mset ys"
  shows "(\<Sum>x\<leftarrow>xs. f x) = (\<Sum>x\<leftarrow>ys. f x)"
proof -
  have "sum_list (map f xs) = sum_mset (image_mset f (mset xs))"
    by (metis mset_map sum_mset_sum_list)
  also have "\<dots> = sum_mset (image_mset f (mset ys))" using assms by simp
  also have "\<dots> = sum_list (map f ys)" by (metis mset_map sum_mset_sum_list)
  finally show ?thesis .
qed

section \<open>The solvers of the object-literal module\<close>

lemma core_tryNums_frame:
  assumes rec: "\<And>h. grid9 h \<Longrightarrow> empties h < n \<Longrightarrow>
                  (case recurse h of None \<Rightarrow> False
                   | Some (b, h') \<Rightarrow> grid9 h' \<and> (\<not> b \<longrightarrow> h' = h))"
    and g9: "grid9 g" and rc: "r < 9" "c < 9" and e: "cell g r c = 0"
    and en: "empties g \<le> n" and nums: "0 \<notin> set nums"
  shows "case core_tryNums recurse g r c nums of None \<Rightarrow> False
         | Some (b, g') \<Rightarrow> grid9 g' \<and> (\<not> b \<longrightarrow> g' = g)"
  using nums
proof (induction nums)
  case Nil
  then show ?case using g9 by simp
next
  case (Cons num nums)
  then have IH: "case core_tryNums recurse g r c nums of None \<Rightarrow> False
         | Some (b, g') \<Rightarrow> grid9 g' \<and> (\<not> b \<longrightarrow> g' = g)"
    and nz: "num \<noteq> 0" by auto
  show ?case
  proof (cases "core_isValidPlacement g r c num")
    case False
    then show ?thesis using IH by simp
  next
    case True
    have "empties (put g r c num) < n" using empties_put[OF g9 rc e nz] en by simp
    from rec[OF grid9_put[OF g9] this] obtain b h'
      where h: "recurse (put g r c num) = Some (b, h')" "grid9 h'" "\<not> b \<longrightarrow> h' = put g r c num"
      by (auto split: option.splits)
    show ?thesis
    proof (cases b)
      case True
      then show ?thesis using h \<open>core_isValidPlacement g r c num\<close> by simp
    next
      case False
      then have "put h' r c 0 = g" using h put_put_restore[OF g9 rc e] by simp
      then show ?thesis using False h IH \<open>core_isValidPlacement g r c num\<close> by simp
    qed
  qed
qed

lemma find_empty_None: "find (\<lambda>(row, col). cell g row col = 0) scanOrder = None \<longleftrightarrow> complete g"
  by (auto simp: find_None_iff complete_iff)

lemma find_empty_Some:
  "find (\<lambda>(row, col). cell g row col = 0) scanOrder = Some (r, c) \<Longrightarrow> r < 9 \<and> c < 9 \<and> cell g r c = 0"
proof -
  assume "find (\<lambda>(row, col). cell g row col = 0) scanOrder = Some (r, c)"
  then have "(r, c) \<in> set scanOrder \<and> cell g r c = 0"
    by (auto simp: find_Some_iff in_set_conv_nth)
  then show ?thesis by simp
qed

lemma core_solveGrid_frame:
  "grid9 g \<Longrightarrow> empties g < n \<Longrightarrow>
     (case core_solveGrid n g of None \<Rightarrow> False
      | Some (b, g') \<Rightarrow> grid9 g' \<and> (\<not> b \<longrightarrow> g' = g))"
proof (induction n arbitrary: g)
  case 0
  then show ?case by simp
next
  case (Suc n)
  show ?case
  proof (cases "find (\<lambda>(row, col). cell g row col = 0) scanOrder")
    case None
    then show ?thesis using Suc.prems by simp
  next
    case (Some p)
    obtain r c where p: "p = (r, c)" by (cases p)
    from find_empty_Some[of g r c] Some p have rc: "r < 9" "c < 9" "cell g r c = 0" by auto
    have "case core_tryNums (core_solveGrid n) g r c [1..<10] of None \<Rightarrow> False
          | Some (b, g') \<Rightarrow> grid9 g' \<and> (\<not> b \<longrightarrow> g' = g)"
      by (rule core_tryNums_frame[where n = n]) (use Suc rc in auto)
    then show ?thesis using Some p by simp
  qed
qed

lemma core_tryNums_correct:
  assumes rec: "\<And>h. structurally_valid h \<Longrightarrow> empties h < n \<Longrightarrow>
                  (case recurse h of None \<Rightarrow> False
                   | Some (b, h') \<Rightarrow>
                       if b then h' \<in> fillings h else h' = h \<and> fillings h = {})"
    and g: "structurally_valid g" and rc: "r < 9" "c < 9" and e: "cell g r c = 0"
    and en: "empties g \<le> n" and nums: "set nums \<subseteq> {1..<10}"
  shows "case core_tryNums recurse g r c nums of None \<Rightarrow> False
         | Some (b, g') \<Rightarrow>
           (if b then g' \<in> (\<Union>d\<in>set nums. fillings (put g r c d))
            else g' = g \<and> (\<forall>d\<in>set nums. fillings (put g r c d) = {}))"
  using nums
proof (induction nums)
  case Nil
  then show ?case by simp
next
  case (Cons num nums)
  have g9: "grid9 g" using g by (simp add: structurally_valid_iff)
  from Cons have IH: "case core_tryNums recurse g r c nums of None \<Rightarrow> False
         | Some (b, g') \<Rightarrow>
           (if b then g' \<in> (\<Union>d\<in>set nums. fillings (put g r c d))
            else g' = g \<and> (\<forall>d\<in>set nums. fillings (put g r c d) = {}))"
    and num: "num \<noteq> 0" "num \<le> 9" by auto
  show ?case
  proof (cases "core_isValidPlacement g r c num")
    case False
    from fillings_invalid[OF g9 rc e num(1) False] IH False show ?thesis
      by (auto split: option.splits if_splits)
  next
    case True
    have v: "structurally_valid (put g r c num)"
      by (rule structurally_valid_put[OF g rc e num(2) True])
    have "empties (put g r c num) < n" using empties_put[OF g9 rc e num(1)] en by simp
    from rec[OF v this] obtain b h'
      where h: "recurse (put g r c num) = Some (b, h')"
        "if b then h' \<in> fillings (put g r c num)
         else h' = put g r c num \<and> fillings (put g r c num) = {}"
      by (auto split: option.splits)
    show ?thesis
    proof (cases b)
      case True
      then show ?thesis using h \<open>core_isValidPlacement g r c num\<close> by auto
    next
      case False
      then have "put h' r c 0 = g" using h put_put_restore[OF g9 rc e] by simp
      then show ?thesis using False h IH \<open>core_isValidPlacement g r c num\<close>
        by (auto split: option.splits if_splits)
    qed
  qed
qed

lemma core_solveGrid_correct:
  "structurally_valid g \<Longrightarrow> empties g < n \<Longrightarrow>
     (case core_solveGrid n g of None \<Rightarrow> False
      | Some (b, g') \<Rightarrow> if b then g' \<in> fillings g else g' = g \<and> fillings g = {})"
proof (induction n arbitrary: g)
  case 0
  then show ?case by simp
next
  case (Suc n)
  have g9: "grid9 g" using Suc.prems by (simp add: structurally_valid_iff)
  show ?case
  proof (cases "find (\<lambda>(row, col). cell g row col = 0) scanOrder")
    case None
    then have "complete g" by (simp add: find_empty_None)
    then show ?thesis using None fillings_complete[OF Suc.prems(1)] by simp
  next
    case (Some p)
    obtain r c where p: "p = (r, c)" by (cases p)
    from find_empty_Some[of g r c] Some p have rc: "r < 9" "c < 9" "cell g r c = 0" by auto
    have "case core_tryNums (core_solveGrid n) g r c [1..<10] of None \<Rightarrow> False
         | Some (b, g') \<Rightarrow>
           (if b then g' \<in> (\<Union>d\<in>set [1..<10]. fillings (put g r c d))
            else g' = g \<and> (\<forall>d\<in>set [1..<10]. fillings (put g r c d) = {}))"
      by (rule core_tryNums_correct[where n = n]) (use Suc rc in auto)
    then show ?thesis using Some p fillings_branch[OF g9 rc]
      by (auto split: option.splits if_splits)
  qed
qed

lemma hd_sort_key_mem: "xs \<noteq> [] \<Longrightarrow> hd (sort_key f xs) \<in> set xs"
proof -
  assume "xs \<noteq> []"
  then have "sort_key f xs \<noteq> []" by (metis length_0_conv length_sort)
  then have "hd (sort_key f xs) \<in> set (sort_key f xs)" by (rule hd_in_set)
  then show ?thesis by simp
qed

lemma core_emptyCells_mem:
  "(r, c, p) \<in> set (core_emptyCells g) \<longleftrightarrow>
     r < 9 \<and> c < 9 \<and> cell g r c = 0 \<and> p = core_possibleNums g r c"
  by (auto simp: core_emptyCells_def)

lemma core_emptyCells_Nil: "core_emptyCells g = [] \<longleftrightarrow> complete g"
proof -
  have "core_emptyCells g = [] \<longleftrightarrow> set (core_emptyCells g) = {}" by simp
  also have "\<dots> \<longleftrightarrow> (\<forall>r c p. (r, c, p) \<notin> set (core_emptyCells g))"
    by (metis equals0I empty_iff prod_cases3)
  also have "\<dots> \<longleftrightarrow> complete g" unfolding core_emptyCells_mem complete_iff by auto
  finally show ?thesis .
qed

lemma core_mrv_cell:
  assumes "core_emptyCells g \<noteq> []"
    and "hd (sort_key (\<lambda>(row, col, possibleNums). possibleNums) (core_emptyCells g)) = (r, c, p)"
  shows "r < 9 \<and> c < 9 \<and> cell g r c = 0"
  using hd_sort_key_mem[OF assms(1), of "\<lambda>(row, col, possibleNums). possibleNums"] assms(2)
  by (simp add: core_emptyCells_mem)

lemma core_solveGridWithMRV_frame:
  "grid9 g \<Longrightarrow> empties g < n \<Longrightarrow>
     (case core_solveGridWithMRV n g of None \<Rightarrow> False
      | Some (b, g') \<Rightarrow> grid9 g' \<and> (\<not> b \<longrightarrow> g' = g))"
proof (induction n arbitrary: g)
  case 0
  then show ?case by simp
next
  case (Suc n)
  show ?case
  proof (cases "core_emptyCells g = []")
    case True
    then show ?thesis using Suc.prems by simp
  next
    case False
    obtain r c p
      where hd: "hd (sort_key (\<lambda>(row, col, possibleNums). possibleNums) (core_emptyCells g)) = (r, c, p)"
      by (metis prod_cases3)
    from core_mrv_cell[OF False hd] have rc: "r < 9" "c < 9" "cell g r c = 0" by auto
    have "case core_tryNums (core_solveGridWithMRV n) g r c [1..<10] of None \<Rightarrow> False
          | Some (b, g') \<Rightarrow> grid9 g' \<and> (\<not> b \<longrightarrow> g' = g)"
      by (rule core_tryNums_frame[where n = n]) (use Suc rc in auto)
    then show ?thesis using False hd by simp
  qed
qed

lemma core_solveGridWithMRV_correct:
  "structurally_valid g \<Longrightarrow> empties g < n \<Longrightarrow>
     (case core_solveGridWithMRV n g of None \<Rightarrow> False
      | Some (b, g') \<Rightarrow> if b then g' \<in> fillings g else g' = g \<and> fillings g = {})"
proof (induction n arbitrary: g)
  case 0
  then show ?case by simp
next
  case (Suc n)
  have g9: "grid9 g" using Suc.prems by (simp add: structurally_valid_iff)
  show ?case
  proof (cases "core_emptyCells g = []")
    case True
    then have "complete g" by (simp add: core_emptyCells_Nil)
    then show ?thesis using True fillings_complete[OF Suc.prems(1)] by simp
  next
    case False
    obtain r c p
      where hd: "hd (sort_key (\<lambda>(row, col, possibleNums). possibleNums) (core_emptyCells g)) = (r, c, p)"
      by (metis prod_cases3)
    from core_mrv_cell[OF False hd] have rc: "r < 9" "c < 9" "cell g r c = 0" by auto
    have "case core_tryNums (core_solveGridWithMRV n) g r c [1..<10] of None \<Rightarrow> False
         | Some (b, g') \<Rightarrow>
           (if b then g' \<in> (\<Union>d\<in>set [1..<10]. fillings (put g r c d))
            else g' = g \<and> (\<forall>d\<in>set [1..<10]. fillings (put g r c d) = {}))"
      by (rule core_tryNums_correct[where n = n]) (use Suc rc in auto)
    then show ?thesis using False hd fillings_branch[OF g9 rc]
      by (auto split: option.splits if_splits)
  qed
qed

section \<open>Counting in the object-literal module\<close>

lemma core_possibleNums_le: "core_possibleNums g r c \<le> 9"
proof -
  have "core_possibleNums g r c \<le> length [1..<10::nat]"
    unfolding core_possibleNums_def by (rule length_filter_le)
  then show ?thesis by simp
qed

text \<open>The invariant of the scan: a selected cell is an empty cell of the grid, and as long
  as no cell is selected \<open>minPossibilities\<close> is still 10.\<close>

lemma core_scanCols_inv:
  assumes "case sel of None \<Rightarrow> m = 10 | Some (r, c) \<Rightarrow> r < 9 \<and> c < 9 \<and> cell g r c = 0"
    and "i < 9" "set js \<subseteq> {..<9}"
  shows "case core_scanCols g i js (sel, m) of
           (None, m') \<Rightarrow> m' = 10 \<and> sel = None \<and> (\<forall>j\<in>set js. cell g i j \<noteq> 0)
         | (Some (r, c), m') \<Rightarrow> r < 9 \<and> c < 9 \<and> cell g r c = 0"
  using assms
proof (induction js arbitrary: sel m)
  case Nil
  then show ?case by (auto split: option.splits)
next
  case (Cons j js)
  have j: "j < 9" and js: "set js \<subseteq> {..<9}" using Cons.prems by auto
  show ?case
  proof (cases "cell g i j = 0")
    case False
    then show ?thesis using Cons.IH[OF Cons.prems(1,2) js]
      by (cases sel) (auto split: option.splits prod.splits)
  next
    case True
    note empty = this
    show ?thesis
    proof (cases "core_possibleNums g i j = 1")
      case True
      then show ?thesis using empty j Cons.prems(2) by simp
    next
      case False
      note not1 = this
      show ?thesis
      proof (cases "core_possibleNums g i j < m")
        case True
        have "case core_scanCols g i js (Some (i, j), core_possibleNums g i j) of
                (None, m') \<Rightarrow> m' = 10 \<and> Some (i, j) = None \<and> (\<forall>j\<in>set js. cell g i j \<noteq> 0)
              | (Some (r, c), m') \<Rightarrow> r < 9 \<and> c < 9 \<and> cell g r c = 0"
          by (rule Cons.IH) (use empty j Cons.prems(2) js in auto)
        then show ?thesis using empty not1 True
          by (auto split: option.splits prod.splits)
      next
        case False
        then have "sel \<noteq> None"
          using Cons.prems(1) core_possibleNums_le[of g i j] by (auto split: option.splits)
        then show ?thesis using empty not1 False Cons.IH[OF Cons.prems(1,2) js]
          by (auto split: option.splits prod.splits)
      qed
    qed
  qed
qed

lemma core_scanRows_inv:
  assumes "case sel of None \<Rightarrow> m = 10 | Some (r, c) \<Rightarrow> r < 9 \<and> c < 9 \<and> cell g r c = 0"
    and "set rows \<subseteq> {..<9}"
  shows "case core_scanRows g rows (sel, m) of
           (None, m') \<Rightarrow> m' = 10 \<and> sel = None \<and> (\<forall>i\<in>set rows. \<forall>j<9. cell g i j \<noteq> 0)
         | (Some (r, c), m') \<Rightarrow> r < 9 \<and> c < 9 \<and> cell g r c = 0"
  using assms
proof (induction rows arbitrary: sel m)
  case Nil
  then show ?case by (auto split: option.splits)
next
  case (Cons i rows)
  have i: "i < 9" and rows: "set rows \<subseteq> {..<9}" using Cons.prems by auto
  obtain sel1 m1 where st1: "core_scanCols g i [0..<9] (sel, m) = (sel1, m1)" by force
  have all: "set [0..<9] \<subseteq> {..<9::nat}" by auto
  have inv1: "case (sel1, m1) of
           (None, m') \<Rightarrow> m' = 10 \<and> sel = None \<and> (\<forall>j\<in>set [0..<9]. cell g i j \<noteq> 0)
         | (Some (r, c), m') \<Rightarrow> r < 9 \<and> c < 9 \<and> cell g r c = 0"
    using core_scanCols_inv[OF Cons.prems(1) i all] st1 by simp
  show ?case
  proof (cases "sel1 \<noteq> None \<and> m1 = 1")
    case True
    then show ?thesis using st1 inv1 by (auto split: option.splits)
  next
    case False
    have pre: "case sel1 of None \<Rightarrow> m1 = 10 | Some (r, c) \<Rightarrow> r < 9 \<and> c < 9 \<and> cell g r c = 0"
      using inv1 by (auto split: option.splits)
    have "core_scanRows g (i # rows) (sel, m) = core_scanRows g rows (sel1, m1)"
      using st1 False by auto
    then show ?thesis using Cons.IH[OF pre rows] inv1
      by (auto split: option.splits prod.splits)
  qed
qed

lemma core_scanRows_all:
  "case core_scanRows g [0..<9] (None, 10) of
     (None, m') \<Rightarrow> (\<forall>i<9. \<forall>j<9. cell g i j \<noteq> 0)
   | (Some (r, c), m') \<Rightarrow> r < 9 \<and> c < 9 \<and> cell g r c = 0"
proof -
  have all: "set [0..<9] \<subseteq> {..<9::nat}" by auto
  have "case None of None \<Rightarrow> (10::nat) = 10
        | Some (r, c) \<Rightarrow> r < 9 \<and> c < 9 \<and> cell g r c = 0" by simp
  from core_scanRows_inv[OF this all] show ?thesis
    by (auto split: option.splits prod.splits)
qed

lemma core_selectCell_None: "core_selectCell g = None \<longleftrightarrow> complete g"
proof
  assume "core_selectCell g = None"
  then show "complete g"
    using core_scanRows_all[of g]
    by (auto simp: core_selectCell_def complete_iff split: option.splits prod.splits)
next
  assume c: "complete g"
  show "core_selectCell g = None"
  proof (rule ccontr)
    assume "core_selectCell g \<noteq> None"
    then obtain r k where "core_selectCell g = Some (r, k)" by auto
    then have "r < 9 \<and> k < 9 \<and> cell g r k = 0"
      using core_scanRows_all[of g]
      by (auto simp: core_selectCell_def split: option.splits prod.splits)
    then show False using c unfolding complete_iff by blast
  qed
qed

lemma core_selectCell_Some:
  "core_selectCell g = Some (r, c) \<Longrightarrow> r < 9 \<and> c < 9 \<and> cell g r c = 0"
  using core_scanRows_all[of g]
  by (auto simp: core_selectCell_def split: option.splits prod.splits)

lemma capped_add_0 [simp]: "capped_add cap cnt 0 = cnt"
  by (simp add: capped_add_def)

lemma capped_add_add:
  "capped_add cap (capped_add cap cnt a) b = capped_add cap cnt (a + b)"
  by (auto simp: capped_add_def)

lemma capped_add_ge: "cap \<le> capped_add cap cnt a \<Longrightarrow> capped_add cap cnt (a + b) = capped_add cap cnt a"
  by (auto simp: capped_add_def)

lemma core_countNums_frame:
  assumes rec: "\<And>h k. grid9 h \<Longrightarrow> empties h < n \<Longrightarrow>
                  (case recurse h k of None \<Rightarrow> False | Some (h', k') \<Rightarrow> h' = h)"
    and g9: "grid9 g" and rc: "r < 9" "c < 9" and e: "cell g r c = 0"
    and en: "empties g \<le> n" and nums: "0 \<notin> set nums"
  shows "case core_countNums recurse g cnt r c nums of None \<Rightarrow> False
         | Some (g', cnt') \<Rightarrow> g' = g"
  using nums
proof (induction nums arbitrary: cnt)
  case Nil
  then show ?case by simp
next
  case (Cons num nums)
  then have IH: "\<And>cnt. case core_countNums recurse g cnt r c nums of None \<Rightarrow> False
         | Some (g', cnt') \<Rightarrow> g' = g"
    and nz: "num \<noteq> 0" by auto
  show ?case
  proof (cases "core_isValidPlacement g r c num")
    case False
    then show ?thesis using IH by simp
  next
    case True
    have "empties (put g r c num) < n" using empties_put[OF g9 rc e nz] en by simp
    from rec[OF grid9_put[OF g9] this, of cnt] obtain k'
      where h: "recurse (put g r c num) cnt = Some (put g r c num, k')"
      by (auto split: option.splits)
    have undo: "put (put g r c num) r c 0 = g" by (rule put_put_restore[OF g9 rc e])
    show ?thesis using True h undo IH[of k'] by (simp add: Let_def)
  qed
qed

lemma core_countSolutionsFast_frame:
  "grid9 g \<Longrightarrow> empties g < n \<Longrightarrow>
     (case core_countSolutionsFast n g cnt of None \<Rightarrow> False | Some (g', cnt') \<Rightarrow> g' = g)"
proof (induction n arbitrary: g cnt)
  case 0
  then show ?case by simp
next
  case (Suc n)
  show ?case
  proof (cases "core_selectCell g")
    case None
    then show ?thesis by simp
  next
    case (Some p)
    obtain r c where p: "p = (r, c)" by (cases p)
    from core_selectCell_Some[of g r c] Some p have rc: "r < 9" "c < 9" "cell g r c = 0" by auto
    have "case core_countNums (core_countSolutionsFast n) g cnt r c [1..<10] of None \<Rightarrow> False
          | Some (g', cnt') \<Rightarrow> g' = g"
      by (rule core_countNums_frame[where n = n]) (use Suc rc in auto)
    then show ?thesis using Some p by simp
  qed
qed

lemma core_countNums_correct:
  assumes rec: "\<And>h k. structurally_valid h \<Longrightarrow> empties h < n \<Longrightarrow>
                  recurse h k = Some (h, capped_add 2 k (card (fillings h)))"
    and g: "structurally_valid g" and rc: "r < 9" "c < 9" and e: "cell g r c = 0"
    and en: "empties g \<le> n" and nums: "set nums \<subseteq> {1..<10}" and cnt: "cnt < 2"
  shows "core_countNums recurse g cnt r c nums
         = Some (g, capped_add 2 cnt (\<Sum>d\<leftarrow>nums. card (fillings (put g r c d))))"
  using nums cnt
proof (induction nums arbitrary: cnt)
  case Nil
  then show ?case by simp
next
  case (Cons num nums)
  have g9: "grid9 g" using g by (simp add: structurally_valid_iff)
  from Cons.prems have num: "num \<noteq> 0" "num \<le> 9" and nums: "set nums \<subseteq> {1..<10}" by auto
  let ?rest = "\<Sum>d\<leftarrow>nums. card (fillings (put g r c d))"
  show ?case
  proof (cases "core_isValidPlacement g r c num")
    case False
    have "card (fillings (put g r c num)) = 0"
      using fillings_invalid[OF g9 rc e num(1) False] by simp
    then show ?thesis using False Cons.IH[OF nums Cons.prems(2)] by simp
  next
    case True
    let ?k = "capped_add 2 cnt (card (fillings (put g r c num)))"
    have v: "structurally_valid (put g r c num)"
      by (rule structurally_valid_put[OF g rc e num(2) True])
    have "empties (put g r c num) < n" using empties_put[OF g9 rc e num(1)] en by simp
    from rec[OF v this, of cnt]
    have h: "recurse (put g r c num) cnt = Some (put g r c num, ?k)" .
    have undo: "put (put g r c num) r c 0 = g" by (rule put_put_restore[OF g9 rc e])
    show ?thesis
    proof (cases "?k \<ge> 2")
      case True
      then have "capped_add 2 cnt (card (fillings (put g r c num)) + ?rest) = ?k"
        by (rule capped_add_ge)
      then show ?thesis using \<open>core_isValidPlacement g r c num\<close> h undo True
        by (simp add: Let_def)
    next
      case False
      then have "?k < 2" by simp
      from Cons.IH[OF nums this]
      have "core_countNums recurse g ?k r c nums = Some (g, capped_add 2 ?k ?rest)" .
      then show ?thesis using \<open>core_isValidPlacement g r c num\<close> h undo False
        by (simp add: Let_def capped_add_add)
    qed
  qed
qed

lemma core_countSolutionsFast_correct:
  "structurally_valid g \<Longrightarrow> empties g < n \<Longrightarrow>
     core_countSolutionsFast n g cnt = Some (g, capped_add 2 cnt (card (fillings g)))"
proof (induction n arbitrary: g cnt)
  case 0
  then show ?case by simp
next
  case (Suc n)
  have g9: "grid9 g" using Suc.prems by (simp add: structurally_valid_iff)
  show ?case
  proof (cases "cnt \<ge> 2")
    case True
    then show ?thesis by (simp add: capped_add_def)
  next
    case False
    then have cnt: "cnt < 2" by simp
    show ?thesis
    proof (cases "core_selectCell g")
      case None
      then have "complete g" by (simp add: core_selectCell_None)
      then have "card (fillings g) = 1" using fillings_complete[OF Suc.prems(1)] by simp
      then show ?thesis using None cnt by (simp add: capped_add_def)
    next
      case (Some p)
      obtain r c where p: "p = (r, c)" by (cases p)
      from core_selectCell_Some[of g r c] Some p have rc: "r < 9" "c < 9" "cell g r c = 0" by auto
      have "core_countNums (core_countSolutionsFast n) g cnt r c [1..<10]
            = Some (g, capped_add 2 cnt (\<Sum>d\<leftarrow>[1..<10]. card (fillings (put g r c d))))"
        by (rule core_countNums_correct[where n = n]) (use Suc rc cnt in auto)
      then show ?thesis using Some p cnt card_fillings_branch[OF g9 rc] by simp
    qed
  qed
qed

section \<open>Shuffling\<close>

lemma randomBelow_less: "0 < n \<Longrightarrow> fst (randomBelow n s) < n"
  by (simp add: randomBelow_def)

lemma fisherYates_mset: "i < length xs \<Longrightarrow> mset (fst (fisherYates i xs s)) = mset xs"
proof (induction i arbitrary: xs s)
  case 0
  then show ?case by simp
next
  case (Suc i)
  obtain j s' where r: "randomBelow (Suc i + 1) s = (j, s')" by force
  have "j < Suc i + 1" using randomBelow_less[of "Suc i + 1" s] r by simp
  then have j: "j < length xs" using Suc.prems by simp
  let ?ys = "xs[Suc i := xs ! j, j := xs ! Suc i]"
  have "mset ?ys = mset xs" using mset_swap[OF j Suc.prems] .
  moreover have "mset (fst (fisherYates i ?ys s')) = mset ?ys"
    by (rule Suc.IH) (use Suc.prems in simp)
  ultimately show ?case using r by simp
qed

lemma shuffleArray_mset: "mset (fst (shuffleArray xs s)) = mset xs"
proof (cases xs)
  case Nil
  then show ?thesis by (simp add: shuffleArray_def)
next
  case (Cons x xs')
  then show ?thesis unfolding shuffleArray_def by (intro fisherYates_mset) simp
qed

lemma shuffleArray_set: "set (fst (shuffleArray xs s)) = set xs"
  using shuffleArray_mset[of xs s] by (metis set_mset_mset)

lemma shuffleArray_length: "length (fst (shuffleArray xs s)) = length xs"
  using shuffleArray_mset[of xs s] by (metis size_mset)

lemma shuffleArray_distinct: "distinct (fst (shuffleArray xs s)) = distinct xs"
  using shuffleArray_mset[of xs s] by (metis mset_eq_imp_distinct_iff)

section \<open>Candidates\<close>

lemma fillings_branch_valid:
  assumes g9: "grid9 g" and rc: "r < 9" "c < 9" and e: "cell g r c = 0"
  shows "fillings g = (\<Union>d\<in>set (filter (core_isValidPlacement g r c) [1..<10]). fillings (put g r c d))"
proof -
  have "(\<Union>d\<in>{1..<10}. fillings (put g r c d))
        = (\<Union>d\<in>set (filter (core_isValidPlacement g r c) [1..<10]). fillings (put g r c d))"
    (is "?A = ?B")
  proof (intro set_eqI iffI)
    fix x assume "x \<in> ?A"
    then obtain d where d: "d \<in> {1..<10}" "x \<in> fillings (put g r c d)" by blast
    then have "core_isValidPlacement g r c d"
      using fillings_invalid[OF g9 rc e, of d] by auto
    then show "x \<in> ?B" using d by auto
  next
    fix x assume "x \<in> ?B"
    then show "x \<in> ?A" by auto
  qed
  then show ?thesis using fillings_branch[OF g9 rc e] by (simp only:)
qed

section \<open>The class: the solver\<close>

lemma SudokuSolver_emptyCells_mem:
  "(r, c, ps) \<in> set (SudokuSolver_emptyCells g) \<longleftrightarrow>
     r < 9 \<and> c < 9 \<and> cell g r c = 0 \<and> ps = filter (core_isValidPlacement g r c) [1..<10]"
  by (auto simp: SudokuSolver_emptyCells_def SudokuSolver_isValidPlacement_eq)

lemma SudokuSolver_emptyCells_Nil: "SudokuSolver_emptyCells g = [] \<longleftrightarrow> complete g"
proof -
  have "SudokuSolver_emptyCells g = [] \<longleftrightarrow> set (SudokuSolver_emptyCells g) = {}" by simp
  also have "\<dots> \<longleftrightarrow> (\<forall>r c p. (r, c, p) \<notin> set (SudokuSolver_emptyCells g))"
    by (metis equals0I empty_iff prod_cases3)
  also have "\<dots> \<longleftrightarrow> complete g" unfolding SudokuSolver_emptyCells_mem complete_iff by auto
  finally show ?thesis .
qed

lemma SudokuSolver_mrv_cell:
  assumes "SudokuSolver_emptyCells g \<noteq> []"
    and "hd (sort_key (\<lambda>(row, col, possibilities). length possibilities)
               (SudokuSolver_emptyCells g)) = (r, c, ps)"
  shows "r < 9 \<and> c < 9 \<and> cell g r c = 0 \<and> ps = filter (core_isValidPlacement g r c) [1..<10]"
  using hd_sort_key_mem[OF assms(1), of "\<lambda>(row, col, possibilities). length possibilities"]
    assms(2)
  by (simp add: SudokuSolver_emptyCells_mem)

lemma SudokuSolver_tryNums_frame:
  assumes rec: "\<And>h t. grid9 h \<Longrightarrow> empties h < n \<Longrightarrow>
                  (case recurse h t of None \<Rightarrow> False
                   | Some (b, h', t') \<Rightarrow> grid9 h' \<and> (\<not> b \<longrightarrow> h' = h))"
    and g9: "grid9 g" and rc: "r < 9" "c < 9" and e: "cell g r c = 0"
    and en: "empties g \<le> n" and nums: "0 \<notin> set nums"
  shows "case SudokuSolver_tryNums recurse g s r c nums of None \<Rightarrow> False
         | Some (b, g', s') \<Rightarrow> grid9 g' \<and> (\<not> b \<longrightarrow> g' = g)"
  using nums
proof (induction nums arbitrary: s)
  case Nil
  then show ?case using g9 by simp
next
  case (Cons num nums)
  then have IH: "\<And>s. case SudokuSolver_tryNums recurse g s r c nums of None \<Rightarrow> False
         | Some (b, g', s') \<Rightarrow> grid9 g' \<and> (\<not> b \<longrightarrow> g' = g)"
    and nz: "num \<noteq> 0" by auto
  show ?case
  proof (cases "core_isValidPlacement g r c num")
    case False
    then show ?thesis using IH by (simp add: SudokuSolver_isValidPlacement_eq)
  next
    case True
    have "empties (put g r c num) < n" using empties_put[OF g9 rc e nz] en by simp
    from rec[OF grid9_put[OF g9] this, of s] obtain b h' t'
      where h: "recurse (put g r c num) s = Some (b, h', t')" "grid9 h'"
        "\<not> b \<longrightarrow> h' = put g r c num"
      by (auto split: option.splits)
    show ?thesis
    proof (cases b)
      case True
      then show ?thesis using h \<open>core_isValidPlacement g r c num\<close>
        by (simp add: SudokuSolver_isValidPlacement_eq)
    next
      case False
      then have "put h' r c 0 = g" using h put_put_restore[OF g9 rc e] by simp
      then show ?thesis using False h IH[of t'] \<open>core_isValidPlacement g r c num\<close>
        by (simp add: SudokuSolver_isValidPlacement_eq)
    qed
  qed
qed

lemma SudokuSolver_solveGrid_frame:
  "grid9 g \<Longrightarrow> empties g < n \<Longrightarrow>
     (case SudokuSolver_solveGrid n randomize g s of None \<Rightarrow> False
      | Some (b, g', s') \<Rightarrow> grid9 g' \<and> (\<not> b \<longrightarrow> g' = g))"
proof (induction n arbitrary: g s)
  case 0
  then show ?case by simp
next
  case (Suc n)
  show ?case
  proof (cases "SudokuSolver_emptyCells g = []")
    case True
    then show ?thesis using Suc.prems by simp
  next
    case False
    obtain r c ps
      where hd: "hd (sort_key (\<lambda>(row, col, possibilities). length possibilities)
                       (SudokuSolver_emptyCells g)) = (r, c, ps)"
      by (metis prod_cases3)
    from SudokuSolver_mrv_cell[OF False hd]
    have rc: "r < 9" "c < 9" "cell g r c = 0"
      and ps: "ps = filter (core_isValidPlacement g r c) [1..<10]" by auto
    obtain ps' s' where sh: "(if randomize \<and> length ps > 1 then shuffleArray ps s else (ps, s)) = (ps', s')"
      by force
    have "set ps' = set ps"
    proof (cases "randomize \<and> length ps > 1")
      case True
      then have "shuffleArray ps s = (ps', s')" using sh by simp
      then have "ps' = fst (shuffleArray ps s)" by simp
      then show ?thesis by (simp only: shuffleArray_set)
    next
      case False
      then show ?thesis using sh by auto
    qed
    then have nz: "0 \<notin> set ps'" using ps by auto
    have "case SudokuSolver_tryNums (\<lambda>g s. SudokuSolver_solveGrid n randomize g s) g s' r c ps' of
            None \<Rightarrow> False
          | Some (b, g', s') \<Rightarrow> grid9 g' \<and> (\<not> b \<longrightarrow> g' = g)"
      by (rule SudokuSolver_tryNums_frame[where n = n]) (use Suc rc nz in auto)
    then show ?thesis using False hd sh by (simp del: shuffleArray_def)
  qed
qed

section \<open>Claims about the placement check\<close>

lemma grid9_canonicalGrid: "grid9 canonicalGrid"
  by (simp add: grid9_def canonicalGrid_def)

text \<open>
  C1. On a 9x9 grid, for a row and a column in \<open>0..8\<close>, \<^verbatim>\<open>isValidPlacement\<close> of each of the
  three modules returns false if and only if the digit occurs in the row, in the column or
  in the 3x3 box of the cell. The function returns a boolean only: it writes nothing into
  the grid.
\<close>

theorem isValidPlacement_false_iff:
  assumes "grid9 g" "row < 9" "col < 9"
  shows "(core_isValidPlacement g row col d = False
            \<longleftrightarrow> in_row g row d \<or> in_col g col d \<or> in_box g row col d)
       \<and> (SudokuSolver_isValidPlacement g row col d = False
            \<longleftrightarrow> in_row g row d \<or> in_col g col d \<or> in_box g row col d)
       \<and> (gen_isValidPlacement g row col d = False
            \<longleftrightarrow> in_row g row d \<or> in_col g col d \<or> in_box g row col d)"
  using assms
  by (simp add: core_isValidPlacement_iff gen_isValidPlacement_iff SudokuSolver_isValidPlacement_eq)

theorem isValidPlacement_false_iff_witness:
  "grid9 canonicalGrid \<and> (0::nat) < 9 \<and> (4::nat) < 9
   \<and> (core_isValidPlacement canonicalGrid 0 4 7 = False
         \<longleftrightarrow> in_row canonicalGrid 0 7 \<or> in_col canonicalGrid 4 7 \<or> in_box canonicalGrid 0 4 7)
   \<and> (SudokuSolver_isValidPlacement canonicalGrid 0 4 7 = False
         \<longleftrightarrow> in_row canonicalGrid 0 7 \<or> in_col canonicalGrid 4 7 \<or> in_box canonicalGrid 0 4 7)
   \<and> (gen_isValidPlacement canonicalGrid 0 4 7 = False
         \<longleftrightarrow> in_row canonicalGrid 0 7 \<or> in_col canonicalGrid 4 7 \<or> in_box canonicalGrid 0 4 7)"
  using isValidPlacement_false_iff[of canonicalGrid 0 4 7] grid9_canonicalGrid by simp

text \<open>
  C10. When the cell \<open>(row, col)\<close> of a 9x9 grid already holds \<open>d\<close>, \<^verbatim>\<open>isValidPlacement\<close>
  returns false for \<open>d\<close> at that cell, in each of the three modules: the scan of the row
  meets the cell itself.
\<close>

theorem isValidPlacement_own_value:
  assumes "grid9 g" "row < 9" "col < 9" "cell g row col = d"
  shows "\<not> core_isValidPlacement g row col d
       \<and> \<not> SudokuSolver_isValidPlacement g row col d
       \<and> \<not> gen_isValidPlacement g row col d"
proof -
  have "in_row g row d" using assms unfolding in_row_def by blast
  then show ?thesis
    using assms
    by (simp add: core_isValidPlacement_iff gen_isValidPlacement_iff
        SudokuSolver_isValidPlacement_eq)
qed

theorem isValidPlacement_own_value_witness:
  "grid9 canonicalGrid \<and> (4::nat) < 9 \<and> (4::nat) < 9 \<and> cell canonicalGrid 4 4 = 9
   \<and> \<not> core_isValidPlacement canonicalGrid 4 4 9
   \<and> \<not> SudokuSolver_isValidPlacement canonicalGrid 4 4 9
   \<and> \<not> gen_isValidPlacement canonicalGrid 4 4 9"
proof -
  have c: "cell canonicalGrid 4 4 = 9" by (simp add: cell_def canonicalGrid_def)
  show ?thesis
    using isValidPlacement_own_value[of canonicalGrid 4 4 9] grid9_canonicalGrid c by simp
qed

end
